theory Spec2Isabelle
  imports Main
begin

section \<open>JavaScript values as the handler sees them\<close>

text \<open>
  \<^verbatim>\<open>src/api.js\<close> types every inbound fragment as \<^verbatim>\<open>any\<close>: it is whatever
  \<^verbatim>\<open>JSON.parse\<close> returned. The values are modelled as a datatype; \<open>JUndefined\<close> is
  what reading an absent property gives. An object is the list of its own properties in
  insertion order (the first binding of a name is the property). Numbers are modelled as
  integers (pod positions, timestamps); fractions and magnitudes beyond the exact range of
  a double are outside the model. A character of a \<open>string\<close> stands for one code point.
\<close>

datatype jsval =
    JUndefined
  | JNull
  | JBool bool
  | JNum int
  | JStr string
  | JArr "jsval list"
  | JObj "(string \<times> jsval) list"

text \<open>Every failure of the source is a \<^verbatim>\<open>TypeError\<close> raised by the runtime.\<close>

datatype js_error = TypeError

text \<open>\<^verbatim>\<open>v.name\<close>, for the property names the source reads: reading a property of
  \<^verbatim>\<open>undefined\<close> or \<^verbatim>\<open>null\<close> throws. Of these names only \<^verbatim>\<open>values\<close> is defined on a
  built-in prototype, that of arrays; the source reads it of an assumption only after
  \<^verbatim>\<open>assumption.template\<close>, which is \<^verbatim>\<open>undefined\<close> on an array, and throws at
  \<^verbatim>\<open>template.split\<close> before the value is used.\<close>

fun get_prop :: "jsval \<Rightarrow> string \<Rightarrow> js_error + jsval" where
  "get_prop JUndefined k = Inl TypeError"
| "get_prop JNull k = Inl TypeError"
| "get_prop (JObj kvs) k = Inr (case map_of kvs k of None \<Rightarrow> JUndefined | Some v \<Rightarrow> v)"
| "get_prop v k = Inr JUndefined"

text \<open>\<^verbatim>\<open>o.name = v\<close> on an object: an existing property keeps its place.\<close>

fun set_entry :: "string \<Rightarrow> jsval \<Rightarrow> (string \<times> jsval) list \<Rightarrow> (string \<times> jsval) list" where
  "set_entry k v [] = [(k, v)]"
| "set_entry k v ((k', v') # kvs) =
     (if k' = k then (k, v) # kvs else (k', v') # set_entry k v kvs)"

text \<open>ToBoolean.\<close>

fun truthy :: "jsval \<Rightarrow> bool" where
  "truthy JUndefined = False"
| "truthy JNull = False"
| "truthy (JBool b) = b"
| "truthy (JNum n) = (n \<noteq> 0)"
| "truthy (JStr s) = (s \<noteq> [])"
| "truthy (JArr xs) = True"
| "truthy (JObj kvs) = True"

text \<open>Decimal digits of a number, as Number.prototype.toString prints an integer.\<close>

definition digit_char :: "nat \<Rightarrow> char" where
  "digit_char d = char_of (48 + d)"

fun show_nat :: "nat \<Rightarrow> string" where
  "show_nat n = (if n < 10 then [digit_char n] else show_nat (n div 10) @ [digit_char (n mod 10)])"

definition show_int :: "int \<Rightarrow> string" where
  "show_int i = (if i < 0 then CHR ''-'' # show_nat (nat (- i)) else show_nat (nat i))"

text \<open>\<^verbatim>\<open>a.join(sep)\<close> on strings already converted.\<close>

fun join :: "string \<Rightarrow> string list \<Rightarrow> string" where
  "join sep [] = []"
| "join sep [x] = x"
| "join sep (x # y # ys) = x @ sep @ join sep (y # ys)"

text \<open>
  ToString, as \<^verbatim>\<open>str += v\<close> and \<^verbatim>\<open>template.includes(v)\<close> apply it. An array is joined
  with commas, \<^verbatim>\<open>null\<close> and \<^verbatim>\<open>undefined\<close> elements printing as the empty string. An
  object prints as \<^verbatim>\<open>[object Object]\<close> through Object.prototype.toString, unless it has
  an own property \<^verbatim>\<open>toString\<close>: a parsed value is never callable, so the conversion
  throws.
\<close>

fun to_string :: "jsval \<Rightarrow> js_error + string"
  and element_strings :: "jsval list \<Rightarrow> js_error + string list" where
  "to_string JUndefined = Inr ''undefined''"
| "to_string JNull = Inr ''null''"
| "to_string (JBool b) = Inr (if b then ''true'' else ''false'')"
| "to_string (JNum n) = Inr (show_int n)"
| "to_string (JStr s) = Inr s"
| "to_string (JArr xs) =
     (case element_strings xs of Inl e \<Rightarrow> Inl e | Inr ss \<Rightarrow> Inr (join '','' ss))"
| "to_string (JObj kvs) =
     (if map_of kvs ''toString'' = None then Inr ''[object Object]'' else Inl TypeError)"
| "element_strings [] = Inr []"
| "element_strings (x # xs) =
     (case (if x = JUndefined \<or> x = JNull then Inr [] else to_string x) of
        Inl e \<Rightarrow> Inl e
      | Inr s \<Rightarrow> (case element_strings xs of Inl e \<Rightarrow> Inl e | Inr ss \<Rightarrow> Inr (s # ss)))"

text \<open>\<^verbatim>\<open>v[i]\<close>: an element of an array, a character of a string, the property named by
  the decimal index of an object.\<close>

fun get_index :: "jsval \<Rightarrow> nat \<Rightarrow> js_error + jsval" where
  "get_index JUndefined i = Inl TypeError"
| "get_index JNull i = Inl TypeError"
| "get_index (JArr xs) i = Inr (if i < length xs then xs ! i else JUndefined)"
| "get_index (JStr s) i = Inr (if i < length s then JStr [s ! i] else JUndefined)"
| "get_index (JObj kvs) i =
     Inr (case map_of kvs (show_nat i) of None \<Rightarrow> JUndefined | Some v \<Rightarrow> v)"
| "get_index v i = Inr JUndefined"

text \<open>The iteration protocol of \<^verbatim>\<open>for (... of v)\<close> and of the spread \<^verbatim>\<open>...v\<close>: arrays
  and strings are iterable, nothing else that \<^verbatim>\<open>JSON.parse\<close> returns is.\<close>

fun iterate :: "jsval \<Rightarrow> js_error + jsval list" where
  "iterate (JArr xs) = Inr xs"
| "iterate (JStr s) = Inr (map (\<lambda>c. JStr [c]) s)"
| "iterate v = Inl TypeError"

fun isArray :: "jsval \<Rightarrow> bool" where
  "isArray (JArr xs) = True"
| "isArray v = False"

section \<open>Map objects\<close>

text \<open>
  A \<^verbatim>\<open>Map\<close> keeps its entries in insertion order and compares keys with SameValueZero:
  primitive keys by value, objects and arrays by identity. Every key the source passes
  comes out of a fresh \<^verbatim>\<open>JSON.parse\<close> (or is a string), so an object or array used as
  a key is never the object of an earlier entry.
\<close>

fun primitive :: "jsval \<Rightarrow> bool" where
  "primitive (JArr xs) = False"
| "primitive (JObj kvs) = False"
| "primitive v = True"

definition same_value_zero :: "jsval \<Rightarrow> jsval \<Rightarrow> bool" where
  "same_value_zero a b = (primitive a \<and> a = b)"

type_synonym 'v jsmap = "(jsval \<times> 'v) list"

fun map_get :: "'v jsmap \<Rightarrow> jsval \<Rightarrow> 'v option" where
  "map_get [] k = None"
| "map_get ((k', v) # m) k = (if same_value_zero k' k then Some v else map_get m k)"

fun map_set :: "jsval \<Rightarrow> 'v \<Rightarrow> 'v jsmap \<Rightarrow> 'v jsmap" where
  "map_set k v [] = [(k, v)]"
| "map_set k v ((k', v') # m) =
     (if same_value_zero k' k then (k', v) # m else (k', v') # map_set k v m)"

definition map_delete :: "jsval \<Rightarrow> 'v jsmap \<Rightarrow> 'v jsmap" where
  "map_delete k m = filter (\<lambda>(k', v). \<not> same_value_zero k' k) m"

definition map_values :: "'v jsmap \<Rightarrow> 'v list" where
  "map_values m = map snd m"

section \<open>The placeholder pattern\<close>

text \<open>
  The regular expression \<^verbatim>\<open>/\${\w*}/\<close>: a dollar sign, an opening brace, the longest run
  of word characters, a closing brace. \<open>match_at s\<close> is the match that starts at the
  head of \<open>s\<close>, with the text after it.
\<close>

definition is_word :: "char \<Rightarrow> bool" where
  "is_word c = (c \<in> set ''ABCDEFGHIJKLMNOPQRSTUVWXYZabcdefghijklmnopqrstuvwxyz0123456789_'')"

fun match_at :: "string \<Rightarrow> (string \<times> string) option" where
  "match_at (a # b # rest) =
     (if a = CHR ''$'' \<and> b = CHR ''{'' then
        (case dropWhile is_word rest of
           [] \<Rightarrow> None
         | c # after \<Rightarrow>
             if c = CHR ''}'' then Some (''${'' @ takeWhile is_word rest @ ''}'', after)
             else None)
      else None)"
| "match_at s = None"

lemma match_at_shorter: "match_at s = Some (k, r) \<Longrightarrow> length r < length s"
proof (cases s rule: match_at.cases)
  case (1 a b rest)
  assume m: "match_at s = Some (k, r)"
  have "length (dropWhile is_word rest) \<le> length rest"
    by (rule length_dropWhile_le)
  with m 1 show ?thesis
    by (auto split: if_splits list.splits)
qed simp_all

text \<open>
  \<open>scan s\<close> walks the template from left to right and returns the literal chunks
  between the matches (what \<^verbatim>\<open>split\<close> returns) and the matches themselves (what
  \<^verbatim>\<open>match\<close> with the \<^verbatim>\<open>g\<close> flag returns when there is at least one).
\<close>

function scan :: "string \<Rightarrow> string list \<times> string list" where
  "scan [] = ([[]], [])"
| "scan (c # cs) =
     (case match_at (c # cs) of
        Some (k, r) \<Rightarrow> (case scan r of (chunks, ks) \<Rightarrow> ([] # chunks, k # ks))
      | None \<Rightarrow>
          (case scan cs of (chunks, ks) \<Rightarrow> ((c # hd chunks) # tl chunks, ks)))"
  by pat_completeness auto
termination
  by (relation "measure length") (auto dest: match_at_shorter)

definition split_template :: "string \<Rightarrow> string list" where
  "split_template t = fst (scan t)"

text \<open>\<^verbatim>\<open>String.prototype.match\<close> returns \<^verbatim>\<open>null\<close>, not an empty array, when nothing
  matches.\<close>

definition match_template :: "string \<Rightarrow> string list option" where
  "match_template t = (case snd (scan t) of [] \<Rightarrow> None | k # ks \<Rightarrow> Some (k # ks))"

fun starts_with :: "string \<Rightarrow> string \<Rightarrow> bool" where
  "starts_with t [] = True"
| "starts_with [] (c # s) = False"
| "starts_with (d # t) (c # s) = (d = c \<and> starts_with t s)"

fun str_includes :: "string \<Rightarrow> string \<Rightarrow> bool" where
  "str_includes [] s = (s = [])"
| "str_includes (d # t) s = (starts_with (d # t) s \<or> str_includes t s)"

section \<open>Sessions\<close>

text \<open>
  \<^verbatim>\<open>Deferred\<close> wraps a native promise. Its \<^verbatim>\<open>resolve\<close> and \<^verbatim>\<open>reject\<close> are the promise's
  resolving functions, which the language defines to do nothing once the promise is
  settled. \<^verbatim>\<open>resolve()\<close> is called with no argument, so a fulfilled promise carries no
  payload.
\<close>

datatype channel_error = ChannelError string

datatype Deferred = Pending | Resolved | Rejected channel_error

fun resolve :: "Deferred \<Rightarrow> Deferred" where
  "resolve Pending = Resolved"
| "resolve d = d"

fun reject :: "channel_error \<Rightarrow> Deferred \<Rightarrow> Deferred" where
  "reject e Pending = Rejected e"
| "reject e d = d"

text \<open>The fields of \<^verbatim>\<open>class Response\<close> and of \<^verbatim>\<open>class QueryResult extends Response\<close>;
  \<open>id'\<close> is the field \<^verbatim>\<open>id\<close>. The back reference \<^verbatim>\<open>api\<close> is implicit: there is one
  \<^verbatim>\<open>WolframAlphaApi\<close>, and the operations that reach through it take its
  \<^verbatim>\<open>pendingResponses\<close> as an argument.\<close>

record Response =
  id' :: string
  responseObjects :: "jsval list"
  deferred :: Deferred
  server :: jsval
  host :: jsval

record QueryResult = Response +
  originalInput :: string
  inputAssumptions :: "string list"
  correctedInput :: jsval
  didYouMean :: "jsval list"
  pods :: "jsval jsmap"
  erroredPods :: "jsval list"
  stepByStep :: "jsval jsmap"
  assumptions :: "jsval list"
  warnings :: "jsval list"
  failed :: bool
  futureTopic :: "jsval list"
  timedOut :: jsval

definition new_QueryResult :: "string \<Rightarrow> string \<Rightarrow> string list \<Rightarrow> QueryResult" where
  "new_QueryResult i input asms =
     \<lparr>id' = i, responseObjects = [], deferred = Pending, server = JNull, host = JNull,
      originalInput = input, inputAssumptions = asms, correctedInput = JNull,
      didYouMean = [], pods = [], erroredPods = [], stepByStep = [], assumptions = [],
      warnings = [], failed = False, futureTopic = [], timedOut = JArr []\<rparr>"

section \<open>Template expansion\<close>

text \<open>\<^verbatim>\<open>chunks[i]\<close> inside \<^verbatim>\<open>str += chunks[i]\<close>: an index past the end reads
  \<^verbatim>\<open>undefined\<close>, which the concatenation prints.\<close>

definition chunk_at :: "string list \<Rightarrow> nat \<Rightarrow> string" where
  "chunk_at chunks i = (if i < length chunks then chunks ! i else ''undefined'')"

text \<open>The conditional expression of the \<^verbatim>\<open>${word}\<close> case (lines 164 to 172), before
  it is appended to \<^verbatim>\<open>str\<close>.\<close>

definition word_value :: "jsval \<Rightarrow> js_error + jsval" where
  "word_value entry =
     (case get_prop entry ''word'' of
        Inl e \<Rightarrow> Inl e
      | Inr w \<Rightarrow>
          if w = JStr ''AssumingWord'' then
            (case get_prop entry ''values'' of
               Inl e \<Rightarrow> Inl e
             | Inr vs \<Rightarrow>
                 (case get_index vs 0 of Inl e \<Rightarrow> Inl e | Inr v0 \<Rightarrow> get_prop v0 ''desc''))
          else if truthy w then Inr w
          else
            (case get_prop entry ''values'' of
               Inl e \<Rightarrow> Inl e
             | Inr vs \<Rightarrow>
                 (case get_index vs 0 of
                    Inl e \<Rightarrow> Inl e
                  | Inr v0 \<Rightarrow>
                      (case get_prop v0 ''word'' of
                         Inl e \<Rightarrow> Inl e
                       | Inr w0 \<Rightarrow>
                           if truthy w0 then
                             (if w0 = JStr '' the input '' then get_prop entry ''query''
                              else Inr w0)
                           else get_prop entry ''query''))))"

text \<open>One turn of the loop over \<^verbatim>\<open>keys\<close>, after \<^verbatim>\<open>str += chunks[i]\<close>: the inner
  \<^verbatim>\<open>switch\<close>. The state is the pair of \<^verbatim>\<open>descIndex\<close> and \<^verbatim>\<open>str\<close>.\<close>

definition expand_key :: "jsval \<Rightarrow> jsval \<Rightarrow> string \<Rightarrow> nat \<times> string \<Rightarrow> js_error + nat \<times> string" where
  "expand_key entry vals key st =
     (case st of (descIndex, str) \<Rightarrow>
        if key = ''${desc}'' then
          (case get_index vals descIndex of
             Inl e \<Rightarrow> Inl e
           | Inr val \<Rightarrow>
               if truthy val then
                 (case get_prop val ''desc'' of
                    Inl e \<Rightarrow> Inl e
                  | Inr d \<Rightarrow>
                      (case to_string d of
                         Inl e \<Rightarrow> Inl e
                       | Inr ds \<Rightarrow> Inr (Suc descIndex, str @ ds)))
               else Inr (Suc descIndex, str))
        else if key = ''${separator}'' then Inr (descIndex, str @ '' | '')
        else if key = ''${word}'' then
          (case word_value entry of
             Inl e \<Rightarrow> Inl e
           | Inr v \<Rightarrow>
               (case to_string v of Inl e \<Rightarrow> Inl e | Inr ws \<Rightarrow> Inr (descIndex, str @ ws)))
        else Inr (descIndex, str @ key))"

fun expand_keys ::
  "jsval \<Rightarrow> jsval \<Rightarrow> string list \<Rightarrow> string list \<Rightarrow> nat \<Rightarrow> nat \<times> string \<Rightarrow> js_error + nat \<times> string" where
  "expand_keys entry vals chunks [] i st = Inr st"
| "expand_keys entry vals chunks (key # keys) i st =
     (case expand_key entry vals key (fst st, snd st @ chunk_at chunks i) of
        Inl e \<Rightarrow> Inl e
      | Inr st' \<Rightarrow> expand_keys entry vals chunks keys (Suc i) st')"

text \<open>Line 148: \<^verbatim>\<open>descIndex\<close> starts at 1 when the first value is truthy and its
  description, converted to a string, occurs in the template.\<close>

definition desc_start :: "string \<Rightarrow> jsval \<Rightarrow> js_error + nat" where
  "desc_start t vals =
     (case get_index vals 0 of
        Inl e \<Rightarrow> Inl e
      | Inr v0 \<Rightarrow>
          if truthy v0 then
            (case get_prop v0 ''desc'' of
               Inl e \<Rightarrow> Inl e
             | Inr d \<Rightarrow>
                 (case to_string d of
                    Inl e \<Rightarrow> Inl e
                  | Inr ds \<Rightarrow> Inr (if str_includes t ds then 1 else 0)))
          else Inr 0)"

text \<open>
  The body of the loop over \<^verbatim>\<open>obj.assumptions\<close> up to the final value of \<^verbatim>\<open>str\<close>
  (lines 142 to 180). Only a string has \<^verbatim>\<open>split\<close>, \<^verbatim>\<open>match\<close> and \<^verbatim>\<open>includes\<close>;
  \<^verbatim>\<open>keys.length\<close> throws when \<^verbatim>\<open>match\<close> returned \<^verbatim>\<open>null\<close>.
\<close>

definition expand :: "jsval \<Rightarrow> js_error + string" where
  "expand assumption =
     (case get_prop assumption ''template'' of
        Inl e \<Rightarrow> Inl e
      | Inr template \<Rightarrow>
          (case get_prop assumption ''values'' of
             Inl e \<Rightarrow> Inl e
           | Inr vals \<Rightarrow>
               (case template of
                  JStr t \<Rightarrow>
                    (case desc_start t vals of
                       Inl e \<Rightarrow> Inl e
                     | Inr descIndex \<Rightarrow>
                         (case match_template t of
                            None \<Rightarrow> Inl TypeError
                          | Some keys \<Rightarrow>
                              (case expand_keys assumption vals (split_template t) keys 0
                                      (descIndex, []) of
                                 Inl e \<Rightarrow> Inl e
                               | Inr st \<Rightarrow>
                                   Inr (snd st @ chunk_at (split_template t) (length keys)))))
                | _ \<Rightarrow> Inl TypeError)))"

text \<open>\<^verbatim>\<open>assumption.string = str\<close>. Class bodies are strict code, where assigning to a
  property of a primitive throws; only an object reaches this line, since only an object
  has a string \<^verbatim>\<open>template\<close>.\<close>

fun set_prop :: "jsval \<Rightarrow> string \<Rightarrow> jsval \<Rightarrow> js_error + jsval" where
  "set_prop (JObj kvs) k v = Inr (JObj (set_entry k v kvs))"
| "set_prop x k v = Inl TypeError"

text \<open>
  The loop over \<^verbatim>\<open>obj.assumptions\<close>. Each entry is mutated in place and pushed, so the
  function also returns the entries as the loop leaves them: the mutated ones, then
  those it did not reach.
\<close>

fun assumptions_loop ::
  "jsval list \<Rightarrow> QueryResult \<Rightarrow> js_error option \<times> jsval list \<times> QueryResult" where
  "assumptions_loop [] s = (None, [], s)"
| "assumptions_loop (a # rest) s =
     (case expand a of
        Inl e \<Rightarrow> (Some e, a # rest, s)
      | Inr str \<Rightarrow>
          (case set_prop a ''string'' (JStr str) of
             Inl e \<Rightarrow> (Some e, a # rest, s)
           | Inr a' \<Rightarrow>
               (case assumptions_loop rest (s\<lparr>assumptions := assumptions s @ [a']\<rparr>) of
                  (err, rest', s') \<Rightarrow> (err, a' # rest', s'))))"

text \<open>The loop over \<^verbatim>\<open>obj.pods\<close> (lines 187 to 190).\<close>

fun pods_loop :: "jsval list \<Rightarrow> QueryResult \<Rightarrow> js_error option \<times> QueryResult" where
  "pods_loop [] s = (None, s)"
| "pods_loop (pod # rest) s =
     (case get_prop pod ''error'' of
        Inl e \<Rightarrow> (Some e, s)
      | Inr err \<Rightarrow>
          if truthy err then pods_loop rest (s\<lparr>erroredPods := erroredPods s @ [pod]\<rparr>)
          else
            (case get_prop pod ''position'' of
               Inl e \<Rightarrow> (Some e, s)
             | Inr pos \<Rightarrow> pods_loop rest (s\<lparr>pods := map_set pos pod (pods s)\<rparr>)))"

section \<open>The fragment handler\<close>

text \<open>
  \<^verbatim>\<open>Response.handleResponseObject\<close> (lines 49 to 52): the fragment is pushed and the
  event \<^verbatim>\<open>responseObject\<close> is emitted. \<^verbatim>\<open>emit\<close> calls the listeners before it returns;
  what they are handed is recorded as the fragment together with the session as it is at
  that moment. Listeners are taken to observe only: they neither throw nor change the
  session.
\<close>

definition Response_handleResponseObject ::
  "jsval \<Rightarrow> QueryResult \<Rightarrow> QueryResult \<times> (jsval \<times> QueryResult) list" where
  "Response_handleResponseObject obj s =
     (let s' = s\<lparr>responseObjects := responseObjects s @ [obj]\<rparr> in (s', [(obj, s')]))"

text \<open>Lines 123 to 125.\<close>

definition copy_fields :: "jsval \<Rightarrow> QueryResult \<Rightarrow> js_error + QueryResult" where
  "copy_fields obj s =
     (case get_prop obj ''input'' of
        Inl e \<Rightarrow> Inl e
      | Inr i \<Rightarrow>
          (let s1 = (if truthy i then s\<lparr>correctedInput := i\<rparr> else s) in
           case get_prop obj ''s'' of
             Inl e \<Rightarrow> Inl e
           | Inr sv \<Rightarrow>
               (let s2 = (if truthy sv then s1\<lparr>server := sv\<rparr> else s1) in
                case get_prop obj ''host'' of
                  Inl e \<Rightarrow> Inl e
                | Inr h \<Rightarrow> Inr (if truthy h then s2\<lparr>host := h\<rparr> else s2))))"

text \<open>The entries of an \<^verbatim>\<open>assumptions\<close> fragment are mutated through the very objects
  the fragment holds, and the fragment is the last element of \<^verbatim>\<open>responseObjects\<close>: this
  is the fragment as it reads after the loop.\<close>

definition aliased_fragment :: "jsval \<Rightarrow> jsval list \<Rightarrow> jsval" where
  "aliased_fragment obj entries =
     (case obj of
        JObj kvs \<Rightarrow>
          (case map_of kvs ''assumptions'' of
             Some (JArr xs) \<Rightarrow> JObj (set_entry ''assumptions'' (JArr entries) kvs)
           | _ \<Rightarrow> obj)
      | _ \<Rightarrow> obj)"

text \<open>
  The \<^verbatim>\<open>switch (obj.type)\<close> of \<^verbatim>\<open>QueryResult.handleResponseObject\<close> (lines 126 to 210).
  \<open>this\<close> is the address of the session, \<open>p\<close> is \<^verbatim>\<open>this.api.pendingResponses\<close>. The
  result is the error thrown, if any, with the session and the map as they are when the
  handler is left.
\<close>

definition dispatch ::
  "nat \<Rightarrow> jsval \<Rightarrow> QueryResult \<Rightarrow> nat jsmap \<Rightarrow> js_error option \<times> QueryResult \<times> nat jsmap" where
  "dispatch this obj s p =
     (case get_prop obj ''type'' of
        Inl e \<Rightarrow> (Some e, s, p)
      | Inr ty \<Rightarrow>
          if ty = JStr ''queryComplete'' then
            (case get_prop obj ''timedOut'' of
               Inl e \<Rightarrow> (Some e, s, p)
             | Inr t \<Rightarrow>
                 (None, s\<lparr>timedOut := t, deferred := resolve (deferred s)\<rparr>,
                  map_delete (JStr (id' s)) p))
          else if ty = JStr ''didyoumean'' then
            (case get_prop obj ''didyoumean'' of
               Inl e \<Rightarrow> (Some e, s, p)
             | Inr d \<Rightarrow>
                 (case iterate d of
                    Inl e \<Rightarrow> (Some e, s, p)
                  | Inr xs \<Rightarrow>
                      (None, s\<lparr>didYouMean := didYouMean s @ xs, id' := id' s @ ''_dym''\<rparr>,
                       map_set (JStr (id' s @ ''_dym'')) this (map_delete (JStr (id' s)) p))))
          else if ty = JStr ''assumptions'' then
            (case get_prop obj ''assumptions'' of
               Inl e \<Rightarrow> (Some e, s, p)
             | Inr a \<Rightarrow>
                 (case iterate a of
                    Inl e \<Rightarrow> (Some e, s, p)
                  | Inr entries \<Rightarrow>
                      (case assumptions_loop entries s of
                         (err, entries', s') \<Rightarrow>
                           (err,
                            s'\<lparr>responseObjects :=
                                 butlast (responseObjects s') @ [aliased_fragment obj entries']\<rparr>,
                            p))))
          else if ty = JStr ''pods'' then
            (case get_prop obj ''pods'' of
               Inl e \<Rightarrow> (Some e, s, p)
             | Inr ps \<Rightarrow>
                 (case iterate ps of
                    Inl e \<Rightarrow> (Some e, s, p)
                  | Inr pods_list \<Rightarrow>
                      (case pods_loop pods_list s of (err, s') \<Rightarrow> (err, s', p))))
          else if ty = JStr ''stepByStep'' then
            (case get_prop obj ''pod'' of
               Inl e \<Rightarrow> (Some e, s, p)
             | Inr pod \<Rightarrow>
                 (case get_prop pod ''position'' of
                    Inl e \<Rightarrow> (Some e, s, p)
                  | Inr pos \<Rightarrow> (None, s\<lparr>stepByStep := map_set pos pod (stepByStep s)\<rparr>, p)))
          else if ty = JStr ''warnings'' then
            (case get_prop obj ''warnings'' of
               Inl e \<Rightarrow> (Some e, s, p)
             | Inr ws \<Rightarrow>
                 (case ws of
                    JArr xs \<Rightarrow> (None, s\<lparr>warnings := warnings s @ xs\<rparr>, p)
                  | _ \<Rightarrow> (None, s\<lparr>warnings := warnings s @ [ws]\<rparr>, p)))
          else if ty = JStr ''noResult'' then (None, s\<lparr>failed := True\<rparr>, p)
          else if ty = JStr ''futureTopic'' then
            (case get_prop obj ''futureTopic'' of
               Inl e \<Rightarrow> (Some e, s, p)
             | Inr ft \<Rightarrow> (None, s\<lparr>futureTopic := futureTopic s @ [ft]\<rparr>, p))
          else (None, s, p))"

text \<open>\<^verbatim>\<open>QueryResult.handleResponseObject\<close>: the call of the parent's method comes first,
  then the three copied fields, then the switch. The last component is what the
  listeners were handed.\<close>

definition QueryResult_handleResponseObject ::
  "nat \<Rightarrow> jsval \<Rightarrow> QueryResult \<Rightarrow> nat jsmap \<Rightarrow>
     js_error option \<times> QueryResult \<times> nat jsmap \<times> (jsval \<times> QueryResult) list" where
  "QueryResult_handleResponseObject this obj s p =
     (case Response_handleResponseObject obj s of
        (s0, ev) \<Rightarrow>
          (case copy_fields obj s0 of
             Inl e \<Rightarrow> (Some e, s0, p, ev)
           | Inr s1 \<Rightarrow>
               (case dispatch this obj s1 p of (err, s2, p2) \<Rightarrow> (err, s2, p2, ev))))"

section \<open>The connection manager\<close>

text \<open>
  The fields of \<^verbatim>\<open>class WolframAlphaApi\<close> that its methods read after construction
  (\<open>queue\<close> is \<^verbatim>\<open>_queue\<close>; a socket is the number of its creation), extended with what
  lies outside the object: the sessions by address, the number of sessions and of sockets
  created, every call of \<^verbatim>\<open>socket.send\<close> (the socket and the value handed to
  \<^verbatim>\<open>JSON.stringify\<close>), and what the listeners of each session were handed.
\<close>

record WolframAlphaApi =
  language :: string
  pendingResponses :: "nat jsmap"
  socket :: "nat option"
  queue :: "jsval list"
  socketReady :: bool

record world = WolframAlphaApi +
  heap :: "nat \<Rightarrow> QueryResult option"
  allocated :: nat
  opened :: nat
  wire :: "(nat \<times> jsval) list"
  emitted :: "(nat \<times> jsval \<times> QueryResult) list"

definition doWebsocketConnect :: "world \<Rightarrow> world" where
  "doWebsocketConnect w = w\<lparr>socket := Some (opened w), opened := Suc (opened w)\<rparr>"

text \<open>\<^verbatim>\<open>this.socket.send(JSON.stringify(v))\<close>: a \<^verbatim>\<open>null\<close> socket has no \<^verbatim>\<open>send\<close>.
  What the transport does with the text is outside the model.\<close>

definition socket_send :: "jsval \<Rightarrow> world \<Rightarrow> js_error option \<times> world" where
  "socket_send v w =
     (case socket w of
        None \<Rightarrow> (Some TypeError, w)
      | Some sock \<Rightarrow> (None, w\<lparr>wire := wire w @ [(sock, v)]\<rparr>))"

definition init_message :: "string \<Rightarrow> int \<Rightarrow> jsval list \<Rightarrow> jsval" where
  "init_message lang now msgs =
     JObj [(''type'', JStr ''init''), (''lang'', JStr lang), (''exp'', JNum now),
           (''messages'', JArr msgs)]"

text \<open>The handlers of the socket's events; \<open>now\<close> is what \<^verbatim>\<open>Date.now()\<close> returns.\<close>

definition on_open :: "int \<Rightarrow> world \<Rightarrow> js_error option \<times> world" where
  "on_open now w =
     (case socket_send (init_message (language w) now (queue w)) w of
        (Some e, w') \<Rightarrow> (Some e, w')
      | (None, w') \<Rightarrow> (None, w'\<lparr>queue := [], socketReady := True\<rparr>))"

definition reject_at :: "channel_error \<Rightarrow> nat \<Rightarrow> (nat \<Rightarrow> QueryResult option) \<Rightarrow> nat \<Rightarrow> QueryResult option" where
  "reject_at e r h =
     (case h r of None \<Rightarrow> h | Some s \<Rightarrow> h(r \<mapsto> s\<lparr>deferred := reject e (deferred s)\<rparr>))"

definition on_error :: "channel_error \<Rightarrow> world \<Rightarrow> world" where
  "on_error e w =
     w\<lparr>socketReady := False, socket := None,
       heap := fold (reject_at e) (map_values (pendingResponses w)) (heap w)\<rparr>"

definition on_close :: "world \<Rightarrow> world" where
  "on_close w = w\<lparr>socket := None, socketReady := False\<rparr>"

definition sendMessage :: "jsval \<Rightarrow> world \<Rightarrow> js_error option \<times> world" where
  "sendMessage message w =
     (if socketReady w then socket_send message w
      else
        (let w' = w\<lparr>queue := queue w @ [message]\<rparr> in
         (None, if socket w' = None then doWebsocketConnect w' else w')))"

text \<open>\<^verbatim>\<open>handleMessage\<close>, on the value \<^verbatim>\<open>JSON.parse\<close> returned. A key of the map always
  leads to a session; the model leaves the world alone if it did not.\<close>

definition handleMessage :: "jsval \<Rightarrow> world \<Rightarrow> js_error option \<times> world" where
  "handleMessage response w =
     (case get_prop response ''locationId'' of
        Inl e \<Rightarrow> (Some e, w)
      | Inr loc \<Rightarrow>
          (case map_get (pendingResponses w) loc of
             None \<Rightarrow> (None, w)
           | Some r \<Rightarrow>
               (case heap w r of
                  None \<Rightarrow> (None, w)
                | Some s \<Rightarrow>
                    (case QueryResult_handleResponseObject r response s (pendingResponses w) of
                       (err, s', p', ev) \<Rightarrow>
                         (err,
                          w\<lparr>pendingResponses := p', heap := (heap w)(r \<mapsto> s'),
                            emitted := emitted w @ map (\<lambda>(f, snap). (r, f, snap)) ev\<rparr>)))))"

definition query_request :: "string \<Rightarrow> string \<Rightarrow> string list \<Rightarrow> string \<Rightarrow> jsval" where
  "query_request lang input asms i =
     JObj [(''type'', JStr ''newQuery''), (''language'', JStr lang), (''file'', JNull),
           (''input'', JStr input), (''assumption'', JArr (map JStr asms)),
           (''locationId'', JStr i)]"

text \<open>\<^verbatim>\<open>query\<close>; \<open>i\<close> is what \<^verbatim>\<open>uuid()\<close> returns. The result carries the address of the
  new session.\<close>

definition query :: "string \<Rightarrow> string \<Rightarrow> string list \<Rightarrow> world \<Rightarrow> js_error option \<times> nat \<times> world" where
  "query i input asms w =
     (let r = allocated w;
          w1 = w\<lparr>pendingResponses := map_set (JStr i) r (pendingResponses w),
                 heap := (heap w)(r \<mapsto> new_QueryResult i input asms),
                 allocated := Suc r\<rparr>
      in case sendMessage (query_request (language w) input asms i) w1 of
           (err, w2) \<Rightarrow> (err, r, w2))"

text \<open>A freshly constructed \<^verbatim>\<open>WolframAlphaApi\<close>, with no session and no socket yet.\<close>

definition new_WolframAlphaApi :: "string \<Rightarrow> world" where
  "new_WolframAlphaApi lang =
     \<lparr>language = lang, pendingResponses = [], socket = None, queue = [],
      socketReady = False, heap = (\<lambda>r. None), allocated = 0, opened = 0, wire = [],
      emitted = []\<rparr>"

section \<open>Sequences of calls\<close>


text \<open>Two queries submitted to a fresh \<^verbatim>\<open>WolframAlphaApi\<close>, the channel not yet open.\<close>

definition two_outstanding :: world where
  "two_outstanding =
     snd (snd (query ''q2'' ''pi'' []
       (snd (snd (query ''q1'' ''2+2'' [] (new_WolframAlphaApi ''en''))))))"

text \<open>The events the socket delivers to the handlers registered in
  \<^verbatim>\<open>doWebsocketConnect\<close>: a message (already parsed), an error, a close.\<close>

datatype channel_event = Message jsval | Failed channel_error | Closed

fun step :: "channel_event \<Rightarrow> world \<Rightarrow> world" where
  "step (Message m) w = snd (handleMessage m w)"
| "step (Failed e) w = on_error e w"
| "step Closed w = on_close w"

fun run :: "channel_event list \<Rightarrow> world \<Rightarrow> world" where
  "run [] w = w"
| "run (ev # evs) w = run evs (step ev w)"

text \<open>The session \<^verbatim>\<open>handleMessage\<close> hands a fragment to: the one its \<^verbatim>\<open>locationId\<close>
  is a key of at that moment, whatever identifier the session was created with.\<close>

definition target :: "jsval \<Rightarrow> world \<Rightarrow> nat option" where
  "target m w =
     (case get_prop m ''locationId'' of
        Inl e \<Rightarrow> None
      | Inr loc \<Rightarrow>
          (case map_get (pendingResponses w) loc of
             None \<Rightarrow> None
           | Some r \<Rightarrow> (case heap w r of None \<Rightarrow> None | Some s \<Rightarrow> Some r)))"

text \<open>The kind of a fragment is its field \<^verbatim>\<open>type\<close>, compared with \<^verbatim>\<open>===\<close>.\<close>

definition is_kind :: "jsval \<Rightarrow> string \<Rightarrow> bool" where
  "is_kind obj k = (get_prop obj ''type'' = Inr (JStr k))"

text \<open>
  The calls of \<^verbatim>\<open>resolve\<close> and \<^verbatim>\<open>reject\<close> on the future of the session at address
  \<open>r\<close> that a sequence of events makes, in order: \<^verbatim>\<open>resolve\<close> for each fragment of kind
  \<^verbatim>\<open>queryComplete\<close> handed to the session, \<^verbatim>\<open>reject\<close> for each channel error while the
  session is in the map.
\<close>

datatype settlement = Resolve | Reject channel_error

fun settle :: "settlement \<Rightarrow> Deferred \<Rightarrow> Deferred" where
  "settle Resolve d = resolve d"
| "settle (Reject e) d = reject e d"

fun attempt :: "nat \<Rightarrow> channel_event \<Rightarrow> world \<Rightarrow> settlement list" where
  "attempt r (Message m) w =
     (if target m w = Some r \<and> is_kind m ''queryComplete'' then [Resolve] else [])"
| "attempt r (Failed e) w =
     (if r \<in> set (map_values (pendingResponses w)) then [Reject e] else [])"
| "attempt r Closed w = []"

fun attempts :: "nat \<Rightarrow> channel_event list \<Rightarrow> world \<Rightarrow> settlement list" where
  "attempts r [] w = []"
| "attempts r (ev # evs) w = attempt r ev w @ attempts r evs (step ev w)"

fun is_message :: "channel_event \<Rightarrow> bool" where
  "is_message (Message m) = True"
| "is_message ev = False"

text \<open>A scenario on \<open>two_outstanding\<close>: the first session is re-keyed by a
  \<^verbatim>\<open>didyoumean\<close> fragment, a fragment under the old identifier arrives, the query
  completes under the new identifier, then the channel fails.\<close>

definition rekeyed_then_completed :: "channel_event list" where
  "rekeyed_then_completed =
     [Message (JObj [(''locationId'', JStr ''q1''), (''type'', JStr ''didyoumean''),
                     (''didyoumean'', JArr [JObj [(''val'', JStr ''2 + 2'')]])]),
      Message (JObj [(''locationId'', JStr ''q1''), (''type'', JStr ''queryComplete'')]),
      Message (JObj [(''locationId'', JStr ''q1_dym''), (''type'', JStr ''queryComplete''),
                     (''timedOut'', JArr [])]),
      Failed (ChannelError ''ECONNRESET'')]"

text \<open>A \<^verbatim>\<open>didyoumean\<close> fragment for the first session of \<open>two_outstanding\<close>.\<close>

definition didyoumean_q1 :: jsval where
  "didyoumean_q1 =
     JObj [(''locationId'', JStr ''q1''), (''type'', JStr ''didyoumean''),
           (''didyoumean'', JArr [JObj [(''val'', JStr ''2 + 2'')]])]"

text \<open>Fragments handed one after the other to the handler of the same session; an error
  thrown by one call does not keep the next fragment from being handled.\<close>

fun apply_fragments ::
  "nat \<Rightarrow> jsval list \<Rightarrow> QueryResult \<times> nat jsmap \<Rightarrow> QueryResult \<times> nat jsmap" where
  "apply_fragments this [] st = st"
| "apply_fragments this (f # fs) st =
     (case QueryResult_handleResponseObject this f (fst st) (snd st) of
        (err, s', p', ev) \<Rightarrow> apply_fragments this fs (s', p'))"

text \<open>What the loop over \<^verbatim>\<open>obj.pods\<close> reads of a pod: \<^verbatim>\<open>pod.error\<close> as a condition and
  \<^verbatim>\<open>pod.position\<close>.\<close>

definition error_flag :: "jsval \<Rightarrow> bool" where
  "error_flag pod = (case get_prop pod ''error'' of Inl e \<Rightarrow> False | Inr v \<Rightarrow> truthy v)"

definition position :: "jsval \<Rightarrow> jsval" where
  "position pod = (case get_prop pod ''position'' of Inl e \<Rightarrow> JUndefined | Inr v \<Rightarrow> v)"

text \<open>A value other than \<^verbatim>\<open>undefined\<close> and \<^verbatim>\<open>null\<close>: one whose properties can be read.\<close>

fun present :: "jsval \<Rightarrow> bool" where
  "present JUndefined = False"
| "present JNull = False"
| "present v = True"

text \<open>The pods a fragment carries, and those of them the loop reaches: the loop is left
  with a \<^verbatim>\<open>TypeError\<close> at the first pod that is \<^verbatim>\<open>null\<close>. A fragment of kind \<^verbatim>\<open>pods\<close>
  is well formed when the loop reaches all the pods of an iterable payload.\<close>

definition carried_pods :: "jsval \<Rightarrow> jsval list" where
  "carried_pods f =
     (case get_prop f ''pods'' of
        Inl e \<Rightarrow> []
      | Inr ps \<Rightarrow> (case iterate ps of Inl e \<Rightarrow> [] | Inr xs \<Rightarrow> xs))"

definition reached_pods :: "jsval \<Rightarrow> jsval list" where
  "reached_pods f = takeWhile present (carried_pods f)"

definition pods_fragment :: "jsval \<Rightarrow> bool" where
  "pods_fragment f =
     (is_kind f ''pods'' \<and>
      (case get_prop f ''pods'' of
         Inl e \<Rightarrow> False
       | Inr ps \<Rightarrow>
           (case iterate ps of Inl e \<Rightarrow> False | Inr xs \<Rightarrow> list_all present xs)))"

text \<open>No two entries of a map have the same key.\<close>

fun unique_keys :: "'v jsmap \<Rightarrow> bool" where
  "unique_keys [] = True"
| "unique_keys ((k, v) # m) = (map_get m k = None \<and> unique_keys m)"

text \<open>Two \<^verbatim>\<open>pods\<close> fragments: the second replaces the pod at position 100; the pod at
  position 200 carries an error.\<close>

definition two_pods_fragments :: "jsval list" where
  "two_pods_fragments =
     [JObj [(''locationId'', JStr ''q1''), (''type'', JStr ''pods''),
            (''pods'', JArr [JObj [(''position'', JNum 100), (''title'', JStr ''Input'')],
                             JObj [(''position'', JNum 200), (''error'', JBool True)]])],
      JObj [(''locationId'', JStr ''q1''), (''type'', JStr ''pods''),
            (''pods'', JArr [JObj [(''position'', JNum 100), (''title'', JStr ''Result'')]])]]"

text \<open>
  Assumption entries whose fields have the types the protocol gives them: a template, an
  optional word, the query text, and values with a description and an optional word.
\<close>

definition optional_field :: "string \<Rightarrow> string option \<Rightarrow> (string \<times> jsval) list" where
  "optional_field k v = (case v of None \<Rightarrow> [] | Some x \<Rightarrow> [(k, JStr x)])"

definition value_entry :: "string \<times> string option \<Rightarrow> jsval" where
  "value_entry v = JObj ((''desc'', JStr (fst v)) # optional_field ''word'' (snd v))"

definition assumption_entry ::
  "string \<Rightarrow> string option \<Rightarrow> string \<Rightarrow> (string \<times> string option) list \<Rightarrow> jsval" where
  "assumption_entry t w q vs =
     JObj ([(''template'', JStr t)] @ optional_field ''word'' w @
           [(''query'', JStr q), (''values'', JArr (map value_entry vs))])"

text \<open>
  The priority chain of the \<^verbatim>\<open>${word}\<close> placeholder in words: \<open>w\<close> is the word of the
  assumption, \<open>q\<close> the query text, \<open>d\<close> and \<open>w0\<close> the description and the word of the
  first value. The phrase compared with is \<^verbatim>\<open>" the input "\<close>, a space on either side.
\<close>

definition first_value_word :: "string \<Rightarrow> string option \<Rightarrow> string" where
  "first_value_word q w0 =
     (case w0 of
        None \<Rightarrow> q
      | Some x \<Rightarrow> if x = [] \<or> x = '' the input '' then q else x)"

definition word_chain :: "string option \<Rightarrow> string \<Rightarrow> string \<Rightarrow> string option \<Rightarrow> string" where
  "word_chain w q d w0 =
     (case w of
        None \<Rightarrow> first_value_word q w0
      | Some x \<Rightarrow>
          if x = ''AssumingWord'' then d
          else if x = [] then first_value_word q w0
          else x)"

text \<open>A template with three \<^verbatim>\<open>${desc}\<close> placeholders and a single value.\<close>

definition one_value_three_descs :: jsval where
  "one_value_three_descs =
     JObj [(''template'', JStr ''${desc}, ${desc} or ${desc}?''),
           (''values'', JArr [JObj [(''desc'', JStr ''a city'')]])]"

text \<open>
  Fragments whose payload has the shape its kind needs. A value of an assumption is an
  object whose description and word are strings or absent; an assumption is an object
  with a string template that holds at least one placeholder, a non-empty array of such
  values, and a word and a query that are strings or absent.
\<close>

fun string_or_absent :: "jsval \<Rightarrow> bool" where
  "string_or_absent JUndefined = True"
| "string_or_absent (JStr s) = True"
| "string_or_absent v = False"

definition field_ok :: "(jsval \<Rightarrow> bool) \<Rightarrow> jsval \<Rightarrow> string \<Rightarrow> bool" where
  "field_ok P v k = (case get_prop v k of Inl e \<Rightarrow> False | Inr x \<Rightarrow> P x)"

fun wf_value :: "jsval \<Rightarrow> bool" where
  "wf_value (JObj kvs) =
     (field_ok string_or_absent (JObj kvs) ''desc'' \<and>
      field_ok string_or_absent (JObj kvs) ''word'')"
| "wf_value v = False"

fun wf_values :: "jsval \<Rightarrow> bool" where
  "wf_values (JArr vs) = (vs \<noteq> [] \<and> list_all wf_value vs)"
| "wf_values v = False"

fun wf_template :: "jsval \<Rightarrow> bool" where
  "wf_template (JStr t) = (match_template t \<noteq> None)"
| "wf_template v = False"

fun wf_assumption :: "jsval \<Rightarrow> bool" where
  "wf_assumption (JObj kvs) =
     (field_ok wf_template (JObj kvs) ''template'' \<and>
      field_ok wf_values (JObj kvs) ''values'' \<and>
      field_ok string_or_absent (JObj kvs) ''word'' \<and>
      field_ok string_or_absent (JObj kvs) ''query'')"
| "wf_assumption v = False"

fun wf_assumptions :: "jsval \<Rightarrow> bool" where
  "wf_assumptions (JArr es) = list_all wf_assumption es"
| "wf_assumptions v = False"

fun iterable :: "jsval \<Rightarrow> bool" where
  "iterable (JArr xs) = True"
| "iterable (JStr s) = True"
| "iterable v = False"

definition well_shaped :: "jsval \<Rightarrow> bool" where
  "well_shaped obj =
     (if is_kind obj ''didyoumean'' then field_ok iterable obj ''didyoumean''
      else if is_kind obj ''assumptions'' then field_ok wf_assumptions obj ''assumptions''
      else if is_kind obj ''pods'' then pods_fragment obj
      else if is_kind obj ''stepByStep'' then field_ok present obj ''pod''
      else present obj)"

text \<open>An \<^verbatim>\<open>assumptions\<close> fragment with the template of the specification's example.\<close>

definition example_assumptions :: jsval where
  "example_assumptions =
     JObj [(''locationId'', JStr ''q1''), (''type'', JStr ''assumptions''),
           (''assumptions'',
            JArr [assumption_entry ''Assuming ${desc} is ${word}'' None ''x''
                    [(''x'', Some ''a variable'')]])]"

text \<open>The channel fails while the first session of \<open>two_outstanding\<close> is outstanding;
  then a \<^verbatim>\<open>queryComplete\<close> fragment for it arrives.\<close>

definition rejected_then_completed :: "channel_event list" where
  "rejected_then_completed =
     [Failed (ChannelError ''ECONNRESET''),
      Message (JObj [(''locationId'', JStr ''q1''), (''type'', JStr ''queryComplete''),
                     (''timedOut'', JArr [JStr ''Weather''])])]"

text \<open>A field that is a string, or absent.\<close>

fun string_of :: "jsval \<Rightarrow> string option" where
  "string_of (JStr s) = Some s"
| "string_of v = None"

text \<open>An assumption entry as the server sends it, with fields the expansion does not
  read, and an \<^verbatim>\<open>assumptions\<close> fragment that carries it.\<close>

definition clash_entry :: jsval where
  "clash_entry =
     JObj [(''type'', JStr ''Clash''), (''template'', JStr ''Assuming ${word} is ${desc}''),
           (''count'', JNum 2), (''query'', JStr ''pi''),
           (''values'', JArr [JObj [(''name'', JStr ''NamedConstant''),
                                    (''desc'', JStr ''a mathematical constant''),
                                    (''word'', JStr '' the input ''),
                                    (''input'', JStr ''*C.pi-_*NamedConstant-'')]])]"

definition clash_fragment :: jsval where
  "clash_fragment =
     JObj [(''locationId'', JStr ''q1''), (''type'', JStr ''assumptions''),
           (''assumptions'', JArr [clash_entry])]"

section \<open>Outbound messages\<close>

text \<open>
  C9, as the code has it: the initialization message sent when the socket opens is the
  object \<^verbatim>\<open>{type: "init", lang, exp, messages}\<close>, and the query-start message that
  \<^verbatim>\<open>query\<close> sends (when the socket is ready) or queues (when it is not) is the object
  \<^verbatim>\<open>{type: "newQuery", language, file: null, input, assumption, locationId}\<close>, with
  these field names in this order. The discriminant field is named \<^verbatim>\<open>type\<close>.
\<close>

theorem outbound_messages_use_type_field:
  "wire (snd (on_open now w)) =
     (case socket w of
        None \<Rightarrow> wire w
      | Some k \<Rightarrow>
          wire w @
          [(k, JObj [(''type'', JStr ''init''), (''lang'', JStr (language w)),
                     (''exp'', JNum now), (''messages'', JArr (queue w))])]) \<and>
   wire (snd (snd (query i input asms w))) =
     (if socketReady w then
        (case socket w of
           None \<Rightarrow> wire w
         | Some k \<Rightarrow>
             wire w @
             [(k, JObj [(''type'', JStr ''newQuery''), (''language'', JStr (language w)),
                        (''file'', JNull), (''input'', JStr input),
                        (''assumption'', JArr (map JStr asms)), (''locationId'', JStr i)])])
      else wire w) \<and>
   queue (snd (snd (query i input asms w))) =
     (if socketReady w then queue w
      else queue w @
        [JObj [(''type'', JStr ''newQuery''), (''language'', JStr (language w)),
               (''file'', JNull), (''input'', JStr input),
               (''assumption'', JArr (map JStr asms)), (''locationId'', JStr i)]])"
proof (intro conjI)
  show "wire (snd (on_open now w)) =
     (case socket w of
        None \<Rightarrow> wire w
      | Some k \<Rightarrow>
          wire w @
          [(k, JObj [(''type'', JStr ''init''), (''lang'', JStr (language w)),
                     (''exp'', JNum now), (''messages'', JArr (queue w))])])"
    by (simp add: on_open_def socket_send_def init_message_def split: option.splits)
next
  show "wire (snd (snd (query i input asms w))) =
     (if socketReady w then
        (case socket w of
           None \<Rightarrow> wire w
         | Some k \<Rightarrow>
             wire w @
             [(k, JObj [(''type'', JStr ''newQuery''), (''language'', JStr (language w)),
                        (''file'', JNull), (''input'', JStr input),
                        (''assumption'', JArr (map JStr asms)), (''locationId'', JStr i)])])
      else wire w)"
    by (simp add: query_def sendMessage_def socket_send_def query_request_def
        doWebsocketConnect_def Let_def split: option.splits)
next
  show "queue (snd (snd (query i input asms w))) =
     (if socketReady w then queue w
      else queue w @
        [JObj [(''type'', JStr ''newQuery''), (''language'', JStr (language w)),
               (''file'', JNull), (''input'', JStr input),
               (''assumption'', JArr (map JStr asms)), (''locationId'', JStr i)]])"
    by (simp add: query_def sendMessage_def socket_send_def query_request_def
        doWebsocketConnect_def Let_def split: option.splits)
qed

text \<open>C9 as stated fails: one query on a fresh api, then the socket opens. What goes out
  is not the batch whose objects carry a field \<^verbatim>\<open>kind\<close>.\<close>

theorem outbound_messages_kind_field_counterexample:
  "wire (snd (on_open 1573000000000
      (snd (snd (query ''q1'' ''2+2'' [] (new_WolframAlphaApi ''en''))))))
   \<noteq> [(0, JObj [(''kind'', JStr ''init''), (''lang'', JStr ''en''),
                (''exp'', JNum 1573000000000),
                (''messages'', JArr [JObj [(''kind'', JStr ''newQuery''),
                   (''language'', JStr ''en''), (''file'', JNull), (''input'', JStr ''2+2''),
                   (''assumption'', JArr []), (''locationId'', JStr ''q1'')]])])]"
  by (simp add: new_WolframAlphaApi_def query_def sendMessage_def query_request_def
      doWebsocketConnect_def on_open_def socket_send_def init_message_def Let_def)

section \<open>Queueing before the channel is ready\<close>








section \<open>What the handler changes\<close>

lemma copy_fields_frame:
  "copy_fields obj s = Inr s1 \<Longrightarrow>
   s1 = s\<lparr>correctedInput := correctedInput s1, server := server s1, host := host s1\<rparr>"
  by (auto simp: copy_fields_def Let_def split: sum.splits if_splits)

lemma copy_fields_same:
  assumes "copy_fields obj s = Inr s1"
  shows "\<exists>a b c. s1 = s\<lparr>correctedInput := a, server := b, host := c\<rparr>"
proof -
  from copy_fields_frame [OF assms]
  have "s1 = s\<lparr>correctedInput := correctedInput s1, server := server s1, host := host s1\<rparr>" .
  then show ?thesis by blast
qed

lemma copy_fields_throws:
  "copy_fields obj s = Inl e \<Longrightarrow> get_prop obj k = Inl TypeError"
  by (cases obj) (auto simp: copy_fields_def Let_def split: sum.splits if_splits)

lemma assumptions_loop_frame:
  "assumptions_loop es s = (err, es', s') \<Longrightarrow> s' = s\<lparr>assumptions := assumptions s'\<rparr>"
proof (induction es arbitrary: s err es' s')
  case Nil
  then show ?case by simp
next
  case (Cons a rest)
  show ?case
  proof (cases "expand a")
    case (Inl e)
    with Cons.prems show ?thesis by simp
  next
    case (Inr str)
    show ?thesis
    proof (cases "set_prop a ''string'' (JStr str)")
      case (Inl e)
      with Inr Cons.prems show ?thesis by simp
    next
      case a': (Inr a')
      obtain err1 rest1 s1 where
        l: "assumptions_loop rest (s\<lparr>assumptions := assumptions s @ [a']\<rparr>) = (err1, rest1, s1)"
        by (cases "assumptions_loop rest (s\<lparr>assumptions := assumptions s @ [a']\<rparr>)") auto
      from Cons.IH [OF l] have "s1 = s\<lparr>assumptions := assumptions s1\<rparr>" by simp
      moreover from Cons.prems Inr a' l have "s' = s1" by simp
      ultimately show ?thesis by simp
    qed
  qed
qed

lemma pods_loop_frame:
  "pods_loop ps s = (err, s') \<Longrightarrow> s' = s\<lparr>pods := pods s', erroredPods := erroredPods s'\<rparr>"
proof (induction ps arbitrary: s)
  case Nil
  then show ?case by simp
next
  case (Cons pod rest)
  show ?case
  proof (cases "get_prop pod ''error''")
    case (Inl e)
    with Cons.prems show ?thesis by simp
  next
    case (Inr flag)
    show ?thesis
    proof (cases "truthy flag")
      case True
      with Cons.prems Inr
      have "pods_loop rest (s\<lparr>erroredPods := erroredPods s @ [pod]\<rparr>) = (err, s')" by simp
      from Cons.IH [OF this] show ?thesis by simp
    next
      case False
      show ?thesis
      proof (cases "get_prop pod ''position''")
        case (Inl e)
        with Cons.prems Inr False show ?thesis by simp
      next
        case pos: (Inr pos)
        with Cons.prems Inr False
        have "pods_loop rest (s\<lparr>pods := map_set pos pod (pods s)\<rparr>) = (err, s')" by simp
        from Cons.IH [OF this] show ?thesis by simp
      qed
    qed
  qed
qed


lemma assumptions_loop_same:
  assumes "assumptions_loop es s = (err, es', s')"
  shows "\<exists>a. s' = s\<lparr>assumptions := a\<rparr>"
proof -
  from assumptions_loop_frame [OF assms] have "s' = s\<lparr>assumptions := assumptions s'\<rparr>" .
  then show ?thesis by blast
qed

lemma pods_loop_same:
  assumes "pods_loop ps s = (err, s')"
  shows "\<exists>a b. s' = s\<lparr>pods := a, erroredPods := b\<rparr>"
proof -
  from pods_loop_frame [OF assms]
  have "s' = s\<lparr>pods := pods s', erroredPods := erroredPods s'\<rparr>" .
  then show ?thesis by blast
qed

lemma dispatch_throws:
  "get_prop obj ''type'' = Inl e \<Longrightarrow> dispatch this obj s p = (Some e, s, p)"
  by (simp add: dispatch_def)

lemma dispatch_queryComplete:
  "is_kind obj ''queryComplete'' \<Longrightarrow>
   dispatch this obj s p =
     (case get_prop obj ''timedOut'' of
        Inl e \<Rightarrow> (Some e, s, p)
      | Inr t \<Rightarrow>
          (None, s\<lparr>timedOut := t, deferred := resolve (deferred s)\<rparr>,
           map_delete (JStr (id' s)) p))"
  by (simp add: dispatch_def is_kind_def)

lemma dispatch_didyoumean:
  "is_kind obj ''didyoumean'' \<Longrightarrow>
   dispatch this obj s p =
     (case get_prop obj ''didyoumean'' of
        Inl e \<Rightarrow> (Some e, s, p)
      | Inr d \<Rightarrow>
          (case iterate d of
             Inl e \<Rightarrow> (Some e, s, p)
           | Inr xs \<Rightarrow>
               (None, s\<lparr>didYouMean := didYouMean s @ xs, id' := id' s @ ''_dym''\<rparr>,
                map_set (JStr (id' s @ ''_dym'')) this (map_delete (JStr (id' s)) p))))"
  by (simp add: dispatch_def is_kind_def)

lemma dispatch_assumptions:
  "is_kind obj ''assumptions'' \<Longrightarrow>
   dispatch this obj s p =
     (case get_prop obj ''assumptions'' of
        Inl e \<Rightarrow> (Some e, s, p)
      | Inr a \<Rightarrow>
          (case iterate a of
             Inl e \<Rightarrow> (Some e, s, p)
           | Inr entries \<Rightarrow>
               (case assumptions_loop entries s of
                  (err, entries', s') \<Rightarrow>
                    (err,
                     s'\<lparr>responseObjects :=
                          butlast (responseObjects s') @ [aliased_fragment obj entries']\<rparr>,
                     p))))"
  by (simp add: dispatch_def is_kind_def)

lemma dispatch_pods:
  "is_kind obj ''pods'' \<Longrightarrow>
   dispatch this obj s p =
     (case get_prop obj ''pods'' of
        Inl e \<Rightarrow> (Some e, s, p)
      | Inr ps \<Rightarrow>
          (case iterate ps of
             Inl e \<Rightarrow> (Some e, s, p)
           | Inr pods_list \<Rightarrow> (case pods_loop pods_list s of (err, s') \<Rightarrow> (err, s', p))))"
  by (simp add: dispatch_def is_kind_def)

lemma dispatch_stepByStep:
  "is_kind obj ''stepByStep'' \<Longrightarrow>
   dispatch this obj s p =
     (case get_prop obj ''pod'' of
        Inl e \<Rightarrow> (Some e, s, p)
      | Inr pod \<Rightarrow>
          (case get_prop pod ''position'' of
             Inl e \<Rightarrow> (Some e, s, p)
           | Inr pos \<Rightarrow> (None, s\<lparr>stepByStep := map_set pos pod (stepByStep s)\<rparr>, p)))"
  by (simp add: dispatch_def is_kind_def)

lemma dispatch_warnings:
  "is_kind obj ''warnings'' \<Longrightarrow>
   dispatch this obj s p =
     (case get_prop obj ''warnings'' of
        Inl e \<Rightarrow> (Some e, s, p)
      | Inr ws \<Rightarrow>
          (case ws of
             JArr xs \<Rightarrow> (None, s\<lparr>warnings := warnings s @ xs\<rparr>, p)
           | _ \<Rightarrow> (None, s\<lparr>warnings := warnings s @ [ws]\<rparr>, p)))"
  by (simp add: dispatch_def is_kind_def)

lemma dispatch_noResult:
  "is_kind obj ''noResult'' \<Longrightarrow> dispatch this obj s p = (None, s\<lparr>failed := True\<rparr>, p)"
  by (simp add: dispatch_def is_kind_def)

lemma dispatch_futureTopic:
  "is_kind obj ''futureTopic'' \<Longrightarrow>
   dispatch this obj s p =
     (case get_prop obj ''futureTopic'' of
        Inl e \<Rightarrow> (Some e, s, p)
      | Inr ft \<Rightarrow> (None, s\<lparr>futureTopic := futureTopic s @ [ft]\<rparr>, p))"
  by (simp add: dispatch_def is_kind_def)

lemma dispatch_ignored:
  "get_prop obj ''type'' = Inr ty \<Longrightarrow>
   \<not> is_kind obj ''queryComplete'' \<Longrightarrow> \<not> is_kind obj ''didyoumean'' \<Longrightarrow>
   \<not> is_kind obj ''assumptions'' \<Longrightarrow> \<not> is_kind obj ''pods'' \<Longrightarrow>
   \<not> is_kind obj ''stepByStep'' \<Longrightarrow> \<not> is_kind obj ''warnings'' \<Longrightarrow>
   \<not> is_kind obj ''noResult'' \<Longrightarrow> \<not> is_kind obj ''futureTopic'' \<Longrightarrow>
   dispatch this obj s p = (None, s, p)"
  by (simp add: dispatch_def is_kind_def)

lemma kind_cases:
  obtains (throws) e where "get_prop obj ''type'' = Inl e"
  | (queryComplete) "is_kind obj ''queryComplete''"
  | (didyoumean) "is_kind obj ''didyoumean''"
  | (assumptions) "is_kind obj ''assumptions''"
  | (pods) "is_kind obj ''pods''"
  | (stepByStep) "is_kind obj ''stepByStep''"
  | (warnings) "is_kind obj ''warnings''"
  | (noResult) "is_kind obj ''noResult''"
  | (futureTopic) "is_kind obj ''futureTopic''"
  | (ignored) ty where "get_prop obj ''type'' = Inr ty"
      "\<not> is_kind obj ''queryComplete''" "\<not> is_kind obj ''didyoumean''"
      "\<not> is_kind obj ''assumptions''" "\<not> is_kind obj ''pods''"
      "\<not> is_kind obj ''stepByStep''" "\<not> is_kind obj ''warnings''"
      "\<not> is_kind obj ''noResult''" "\<not> is_kind obj ''futureTopic''"
  by (cases "get_prop obj ''type''") blast+

lemma get_prop_defined:
  "get_prop obj k = Inr v \<Longrightarrow> \<exists>v'. get_prop obj k' = Inr v'"
  by (cases obj) simp_all

lemma is_kind_defined: "is_kind obj k \<Longrightarrow> \<exists>v'. get_prop obj k' = Inr v'"
  unfolding is_kind_def by (rule get_prop_defined)

lemma is_kind_unique: "is_kind obj k \<Longrightarrow> is_kind obj k' = (k' = k)"
  by (auto simp: is_kind_def)

lemma dispatch_deferred:
  assumes "dispatch this obj s p = (err, s', p')"
  shows "deferred s' = (if is_kind obj ''queryComplete'' then resolve (deferred s) else deferred s)"
proof -
  have a: "\<And>es x y z. assumptions_loop es s = (x, y, z) \<Longrightarrow> deferred z = deferred s"
    by (drule assumptions_loop_same) auto
  have b: "\<And>ps x z. pods_loop ps s = (x, z) \<Longrightarrow> deferred z = deferred s"
    by (drule pods_loop_same) auto
  show ?thesis
  proof (cases obj rule: kind_cases)
    case (throws e)
    with assms show ?thesis by (simp add: dispatch_throws is_kind_def)
  next
    case queryComplete
    with assms is_kind_defined [OF queryComplete, of "''timedOut''"] show ?thesis
      by (auto simp: dispatch_queryComplete)
  next
    case didyoumean
    with assms show ?thesis
      by (auto simp: dispatch_didyoumean is_kind_unique split: sum.splits)
  next
    case assumptions
    with assms show ?thesis
      by (auto simp: dispatch_assumptions is_kind_unique split: sum.splits prod.splits dest: a)
  next
    case pods
    with assms show ?thesis
      by (auto simp: dispatch_pods is_kind_unique split: sum.splits prod.splits dest: b)
  next
    case stepByStep
    with assms show ?thesis
      by (auto simp: dispatch_stepByStep is_kind_unique split: sum.splits)
  next
    case warnings
    with assms show ?thesis
      by (auto simp: dispatch_warnings is_kind_unique split: sum.splits jsval.splits)
  next
    case noResult
    with assms show ?thesis by (auto simp: dispatch_noResult is_kind_unique)
  next
    case futureTopic
    with assms show ?thesis
      by (auto simp: dispatch_futureTopic is_kind_unique split: sum.splits)
  next
    case (ignored ty)
    with assms show ?thesis
      by (simp add: dispatch_ignored)
  qed
qed

lemma handler_deferred:
  assumes "QueryResult_handleResponseObject this obj s p = (err, s', p', ev)"
  shows "deferred s' = (if is_kind obj ''queryComplete'' then resolve (deferred s) else deferred s)"
proof (cases "copy_fields obj (s\<lparr>responseObjects := responseObjects s @ [obj]\<rparr>)")
  case (Inl e)
  from copy_fields_throws [OF Inl, of "''type''"] have "\<not> is_kind obj ''queryComplete''"
    by (simp add: is_kind_def)
  with assms Inl show ?thesis
    by (auto simp: QueryResult_handleResponseObject_def Response_handleResponseObject_def Let_def)
next
  case (Inr s1)
  from copy_fields_same [OF Inr] have "deferred s1 = deferred s"
    by auto
  moreover from assms Inr have "dispatch this obj s1 p = (err, s', p')"
    by (auto simp: QueryResult_handleResponseObject_def Response_handleResponseObject_def Let_def
        split: prod.splits)
  ultimately show ?thesis using dispatch_deferred by simp
qed

lemma handler_events:
  "snd (snd (snd (QueryResult_handleResponseObject this obj s p))) =
     [(obj, s\<lparr>responseObjects := responseObjects s @ [obj]\<rparr>)]"
  by (simp add: QueryResult_handleResponseObject_def Response_handleResponseObject_def Let_def
      split: sum.splits prod.splits)

lemma two_outstanding_state:
  "pendingResponses two_outstanding = [(JStr ''q1'', 0), (JStr ''q2'', Suc 0)]"
  "heap two_outstanding 0 = Some (new_QueryResult ''q1'' ''2+2'' [])"
  "heap two_outstanding (Suc 0) = Some (new_QueryResult ''q2'' ''pi'' [])"
  by (simp_all add: two_outstanding_def new_WolframAlphaApi_def query_def sendMessage_def
      doWebsocketConnect_def Let_def same_value_zero_def)

lemma copy_fields_defined:
  assumes "get_prop obj k = Inr v"
  shows "\<exists>s1. copy_fields obj s = Inr s1"
proof (cases "copy_fields obj s")
  case (Inl e)
  from copy_fields_throws [OF Inl, of k] assms show ?thesis by simp
next
  case (Inr s1)
  then show ?thesis by blast
qed

lemma map_get_map_set:
  "map_get (map_set a v m) k = (if same_value_zero a k then Some v else map_get m k)"
  by (induction m) (auto simp: same_value_zero_def)

lemma map_get_map_delete:
  "map_get (map_delete a m) k = (if same_value_zero a k then None else map_get m k)"
  by (induction m) (auto simp: same_value_zero_def map_delete_def)

section \<open>Channel error and channel close\<close>

lemma reject_idem: "reject e (reject e d) = reject e d"
  by (cases d) simp_all

lemma reject_at_apply:
  "reject_at e a h x =
     (if x = a then map_option (\<lambda>s. s\<lparr>deferred := reject e (deferred s)\<rparr>) (h a) else h x)"
  by (cases "h a") (simp_all add: reject_at_def)

lemma fold_reject_at:
  "fold (reject_at e) rs h r =
     (if r \<in> set rs then map_option (\<lambda>s. s\<lparr>deferred := reject e (deferred s)\<rparr>) (h r)
      else h r)"
proof (induction rs arbitrary: h)
  case Nil
  show ?case by simp
next
  case (Cons a rs)
  have "fold (reject_at e) (a # rs) h r = fold (reject_at e) rs (reject_at e a h) r"
    by simp
  also have "\<dots> =
     (if r \<in> set rs
      then map_option (\<lambda>s. s\<lparr>deferred := reject e (deferred s)\<rparr>) (reject_at e a h r)
      else reject_at e a h r)"
    by (rule Cons.IH)
  also have "\<dots> =
     (if r \<in> set (a # rs) then map_option (\<lambda>s. s\<lparr>deferred := reject e (deferred s)\<rparr>) (h r)
      else h r)"
    by (cases "h a") (auto simp: reject_at_apply reject_idem option.map_comp comp_def)
  finally show ?case .
qed

text \<open>
  C4: the error handler of the socket calls \<^verbatim>\<open>reject(error)\<close> on the completion future
  of every session in \<^verbatim>\<open>pendingResponses\<close>, so that every such future still pending is
  rejected with that error (a future settled before keeps its outcome); it changes
  nothing else of any session, touches no session outside the map and leaves the map as
  it is. The close handler leaves the map and every session as they are: it rejects
  nothing.
\<close>

theorem channel_error_rejects_close_does_not:
  "pendingResponses (on_error e w) = pendingResponses w \<and>
   (\<forall>r s. r \<in> set (map_values (pendingResponses w)) \<and> heap w r = Some s \<longrightarrow>
      heap (on_error e w) r = Some (s\<lparr>deferred := reject e (deferred s)\<rparr>) \<and>
      (deferred s = Pending \<longrightarrow>
         heap (on_error e w) r = Some (s\<lparr>deferred := Rejected e\<rparr>))) \<and>
   (\<forall>r. r \<notin> set (map_values (pendingResponses w)) \<longrightarrow> heap (on_error e w) r = heap w r) \<and>
   pendingResponses (on_close w) = pendingResponses w \<and>
   heap (on_close w) = heap w"
proof -
  have h: "heap (on_error e w) = fold (reject_at e) (map_values (pendingResponses w)) (heap w)"
    by (simp add: on_error_def)
  have "pendingResponses (on_error e w) = pendingResponses w"
    by (simp add: on_error_def)
  moreover have "pendingResponses (on_close w) = pendingResponses w" "heap (on_close w) = heap w"
    by (simp_all add: on_close_def)
  ultimately show ?thesis
    by (auto simp: h fold_reject_at)
qed

text \<open>The channel fails while two sessions are outstanding: both futures are rejected
  with the error, both sessions are still in the map.\<close>

theorem channel_error_rejects_close_does_not_witness:
  "map_values (pendingResponses two_outstanding) = [0, 1] \<and>
   pendingResponses (on_error (ChannelError ''ECONNRESET'') two_outstanding) =
     [(JStr ''q1'', 0), (JStr ''q2'', 1)] \<and>
   heap (on_error (ChannelError ''ECONNRESET'') two_outstanding) 0 =
     Some ((new_QueryResult ''q1'' ''2+2'' [])\<lparr>deferred := Rejected (ChannelError ''ECONNRESET'')\<rparr>) \<and>
   heap (on_error (ChannelError ''ECONNRESET'') two_outstanding) 1 =
     Some ((new_QueryResult ''q2'' ''pi'' [])\<lparr>deferred := Rejected (ChannelError ''ECONNRESET'')\<rparr>) \<and>
   heap (on_close two_outstanding) 0 = Some (new_QueryResult ''q1'' ''2+2'' [])"
proof -
  note t = channel_error_rejects_close_does_not [of "ChannelError ''ECONNRESET''" two_outstanding]
  have p0: "deferred (new_QueryResult ''q1'' ''2+2'' []) = Pending"
    and p1: "deferred (new_QueryResult ''q2'' ''pi'' []) = Pending"
    by (simp_all add: new_QueryResult_def)
  have m: "map_values (pendingResponses two_outstanding) = [0, 1]"
    by (simp add: two_outstanding_state map_values_def)
  from t have a: "\<And>r s. r \<in> set (map_values (pendingResponses two_outstanding)) \<Longrightarrow>
      heap two_outstanding r = Some s \<Longrightarrow> deferred s = Pending \<Longrightarrow>
      heap (on_error (ChannelError ''ECONNRESET'') two_outstanding) r =
        Some (s\<lparr>deferred := Rejected (ChannelError ''ECONNRESET'')\<rparr>)"
    by blast
  have "heap (on_error (ChannelError ''ECONNRESET'') two_outstanding) 0 =
     Some ((new_QueryResult ''q1'' ''2+2'' [])\<lparr>deferred := Rejected (ChannelError ''ECONNRESET'')\<rparr>)"
    by (rule a) (simp_all add: two_outstanding_state map_values_def p0)
  moreover have "heap (on_error (ChannelError ''ECONNRESET'') two_outstanding) 1 =
     Some ((new_QueryResult ''q2'' ''pi'' [])\<lparr>deferred := Rejected (ChannelError ''ECONNRESET'')\<rparr>)"
    by (rule a) (simp_all add: two_outstanding_state map_values_def p1)
  ultimately show ?thesis
    using t by (simp add: two_outstanding_state map_values_def)
qed

section \<open>Settlement of the completion future\<close>

lemma settle_settled: "d \<noteq> Pending \<Longrightarrow> settle a d = d"
  by (cases a; cases d) simp_all

lemma fold_settle_settled: "d \<noteq> Pending \<Longrightarrow> fold settle as d = d"
  by (induction as) (simp_all add: settle_settled)

lemma settle_Pending: "settle a Pending \<noteq> Pending"
  by (cases a) simp_all

lemma fold_settle_Pending:
  "fold settle as Pending = (case as of [] \<Rightarrow> Pending | a # _ \<Rightarrow> settle a Pending)"
  by (cases as) (simp_all add: fold_settle_settled settle_Pending)

lemma handleMessage_heap:
  assumes "heap w r = Some s"
  shows "\<exists>s'. heap (snd (handleMessage m w)) r = Some s' \<and>
     deferred s' = fold settle (attempt r (Message m) w) (deferred s)"
proof (cases "target m w")
  case None
  then have "snd (handleMessage m w) = w"
    by (auto simp: target_def handleMessage_def split: sum.splits option.splits)
  with None assms show ?thesis by simp
next
  case (Some r')
  then obtain loc s0 where loc: "get_prop m ''locationId'' = Inr loc"
    and r': "map_get (pendingResponses w) loc = Some r'" and s0: "heap w r' = Some s0"
    by (auto simp: target_def split: sum.splits option.splits)
  obtain err s1 p1 ev where
    h: "QueryResult_handleResponseObject r' m s0 (pendingResponses w) = (err, s1, p1, ev)"
    by (cases "QueryResult_handleResponseObject r' m s0 (pendingResponses w)") auto
  from loc r' s0 h have hp: "heap (snd (handleMessage m w)) = (heap w)(r' \<mapsto> s1)"
    by (simp add: handleMessage_def)
  show ?thesis
  proof (cases "r' = r")
    case True
    with s0 assms have "s0 = s" by simp
    with handler_deferred [OF h] hp True Some show ?thesis by simp
  next
    case False
    with hp Some assms show ?thesis by simp
  qed
qed

lemma step_heap:
  assumes "heap w r = Some s"
  shows "\<exists>s'. heap (step ev w) r = Some s' \<and>
     deferred s' = fold settle (attempt r ev w) (deferred s)"
proof (cases ev)
  case (Message m)
  with handleMessage_heap [OF assms, of m] show ?thesis by simp
next
  case (Failed e)
  have "heap (on_error e w) r =
     (if r \<in> set (map_values (pendingResponses w))
      then map_option (\<lambda>s. s\<lparr>deferred := reject e (deferred s)\<rparr>) (heap w r) else heap w r)"
    by (simp add: on_error_def fold_reject_at)
  with Failed assms show ?thesis by simp
next
  case Closed
  with assms show ?thesis by (simp add: on_close_def)
qed

lemma run_heap:
  "heap w r = Some s \<Longrightarrow>
   \<exists>s'. heap (run evs w) r = Some s' \<and> deferred s' = fold settle (attempts r evs w) (deferred s)"
proof (induction evs arbitrary: w s)
  case Nil
  then show ?case by simp
next
  case (Cons ev evs)
  from step_heap [OF Cons.prems, of ev] obtain s1 where
    s1: "heap (step ev w) r = Some s1"
    and d1: "deferred s1 = fold settle (attempt r ev w) (deferred s)" by blast
  from Cons.IH [OF s1] d1 show ?case by simp
qed

lemma attempts_messages:
  "\<forall>ev\<in>set evs. is_message ev \<Longrightarrow> set (attempts r evs w) \<subseteq> {Resolve}"
proof (induction evs arbitrary: w)
  case Nil
  show ?case by simp
next
  case (Cons ev evs)
  then show ?case by (cases ev) auto
qed

text \<open>
  C1, as the code has it: take a session and any sequence of channel events (messages,
  errors, closes). Its completion future ends as the calls made on it, in order, leave
  it: \<^verbatim>\<open>resolve\<close> is called exactly when a fragment of kind \<^verbatim>\<open>queryComplete\<close> is handed
  to the session (under whatever key the session is registered at that moment, so also
  after a re-key), \<^verbatim>\<open>reject\<close> exactly when the channel fails while the session is in
  the map. A future that is settled never changes again. For a pending future the first
  call alone decides: it is resolved if and only if the first call is the one of a
  \<^verbatim>\<open>queryComplete\<close> fragment; later calls (a duplicate \<^verbatim>\<open>queryComplete\<close>, a resolve
  after a reject, a reject after a resolve) change nothing. When the events are messages
  only, the future is resolved if and only if a \<^verbatim>\<open>queryComplete\<close> fragment was handed to
  the session.
\<close>

theorem completion_settled_by_first_attempt:
  assumes "heap w r = Some s"
  shows "\<exists>s'. heap (run evs w) r = Some s' \<and>
     deferred s' = fold settle (attempts r evs w) (deferred s) \<and>
     (deferred s \<noteq> Pending \<longrightarrow> deferred s' = deferred s) \<and>
     (deferred s = Pending \<longrightarrow>
        deferred s' = (case attempts r evs w of [] \<Rightarrow> Pending | a # _ \<Rightarrow> settle a Pending) \<and>
        (deferred s' = Resolved) = (\<exists>as. attempts r evs w = Resolve # as) \<and>
        ((\<forall>ev\<in>set evs. is_message ev) \<longrightarrow>
           (deferred s' = Resolved) = (Resolve \<in> set (attempts r evs w))))"
proof -
  from run_heap [OF assms, of evs] obtain s' where
    h: "heap (run evs w) r = Some s'"
    and d: "deferred s' = fold settle (attempts r evs w) (deferred s)" by blast
  have settled: "deferred s \<noteq> Pending \<Longrightarrow> deferred s' = deferred s"
    using d by (simp add: fold_settle_settled)
  have first: "deferred s' = (case attempts r evs w of [] \<Rightarrow> Pending | a # _ \<Rightarrow> settle a Pending)"
    if "deferred s = Pending"
    using d that by (simp add: fold_settle_Pending)
  have iff: "(deferred s' = Resolved) = (\<exists>as. attempts r evs w = Resolve # as)"
    if "deferred s = Pending"
  proof (cases "attempts r evs w")
    case Nil
    with first [OF that] show ?thesis by simp
  next
    case (Cons a as)
    with first [OF that] show ?thesis by (cases a) simp_all
  qed
  have msgs: "(deferred s' = Resolved) = (Resolve \<in> set (attempts r evs w))"
    if "deferred s = Pending" "\<forall>ev\<in>set evs. is_message ev"
  proof (cases "attempts r evs w")
    case Nil
    with first [OF that(1)] show ?thesis by simp
  next
    case (Cons a as)
    with attempts_messages [OF that(2), of r w] have "a = Resolve" by simp
    with Cons first [OF that(1)] show ?thesis by simp
  qed
  from h d settled first iff msgs show ?thesis by blast
qed

text \<open>The first session of \<open>two_outstanding\<close> through the scenario
  \<open>rekeyed_then_completed\<close>: one call of \<^verbatim>\<open>resolve\<close>, made by the fragment that
  arrives under the new key; the channel error after it changes nothing.\<close>

theorem completion_settled_by_first_attempt_witness:
  "heap two_outstanding 0 = Some (new_QueryResult ''q1'' ''2+2'' []) \<and>
   attempts 0 rekeyed_then_completed two_outstanding = [Resolve] \<and>
   (\<exists>s'. heap (run rekeyed_then_completed two_outstanding) 0 = Some s' \<and>
      deferred s' = Resolved)"
proof -
  have a: "attempts 0 rekeyed_then_completed two_outstanding = [Resolve]"
    unfolding rekeyed_then_completed_def two_outstanding_def by code_simp
  have p: "deferred (new_QueryResult ''q1'' ''2+2'' []) = Pending"
    by (simp add: new_QueryResult_def)
  from completion_settled_by_first_attempt
    [OF two_outstanding_state(2), of rekeyed_then_completed]
  show ?thesis using a p by (auto simp: two_outstanding_state)
qed

text \<open>C1 as stated fails: the channel fails, which rejects the future and leaves the
  session in the map; the \<^verbatim>\<open>queryComplete\<close> fragment that arrives afterwards is applied
  to the session (it records \<^verbatim>\<open>timedOut\<close> and calls \<^verbatim>\<open>resolve\<close>), and the future stays
  rejected.\<close>

theorem completion_resolves_iff_queryComplete_counterexample:
  "attempts 0 rejected_then_completed two_outstanding =
     [Reject (ChannelError ''ECONNRESET''), Resolve] \<and>
   map_option timedOut (heap (run rejected_then_completed two_outstanding) 0) =
     Some (JArr [JStr ''Weather'']) \<and>
   map_option deferred (heap (run rejected_then_completed two_outstanding) 0) =
     Some (Rejected (ChannelError ''ECONNRESET''))"
  unfolding rejected_then_completed_def two_outstanding_def by code_simp

section \<open>The listener notification\<close>

text \<open>
  C8, as the code has it: every call of the handler notifies the listeners exactly once
  and hands them the fragment it was called with; at that moment the fragment has been
  appended to \<^verbatim>\<open>responseObjects\<close> and nothing else of the session has changed yet: the
  notification comes before the mutation for the fragment's kind, not after it. For the
  connection manager: a message adds one notification when it is handed to a session and
  none when it is dropped.
\<close>

theorem listener_notified_once_before_mutation:
  "snd (snd (snd (QueryResult_handleResponseObject this obj s p))) =
     [(obj, s\<lparr>responseObjects := responseObjects s @ [obj]\<rparr>)] \<and>
   emitted (snd (handleMessage m w)) =
     emitted w @
     (case target m w of
        None \<Rightarrow> []
      | Some r \<Rightarrow>
          (case heap w r of
             None \<Rightarrow> []
           | Some s0 \<Rightarrow> [(r, m, s0\<lparr>responseObjects := responseObjects s0 @ [m]\<rparr>)]))"
proof
  show "snd (snd (snd (QueryResult_handleResponseObject this obj s p))) =
     [(obj, s\<lparr>responseObjects := responseObjects s @ [obj]\<rparr>)]"
    by (rule handler_events)
next
  show "emitted (snd (handleMessage m w)) =
     emitted w @
     (case target m w of
        None \<Rightarrow> []
      | Some r \<Rightarrow>
          (case heap w r of
             None \<Rightarrow> []
           | Some s0 \<Rightarrow> [(r, m, s0\<lparr>responseObjects := responseObjects s0 @ [m]\<rparr>)]))"
  proof (cases "target m w")
    case None
    then have "snd (handleMessage m w) = w"
      by (auto simp: target_def handleMessage_def split: sum.splits option.splits)
    with None show ?thesis by simp
  next
    case (Some r)
    then obtain loc s0 where loc: "get_prop m ''locationId'' = Inr loc"
      and r: "map_get (pendingResponses w) loc = Some r" and s0: "heap w r = Some s0"
      by (auto simp: target_def split: sum.splits option.splits)
    obtain err s1 p1 ev where
      h: "QueryResult_handleResponseObject r m s0 (pendingResponses w) = (err, s1, p1, ev)"
      by (cases "QueryResult_handleResponseObject r m s0 (pendingResponses w)") auto
    from handler_events [of r m s0 "pendingResponses w"] h
    have "ev = [(m, s0\<lparr>responseObjects := responseObjects s0 @ [m]\<rparr>)]" by simp
    with loc r s0 h Some show ?thesis by (simp add: handleMessage_def)
  qed
qed

text \<open>C8 as stated fails: a \<^verbatim>\<open>noResult\<close> fragment sets \<^verbatim>\<open>failed\<close>, and the listener
  is handed a session whose \<^verbatim>\<open>failed\<close> is still false.\<close>

theorem listener_notified_after_mutation_counterexample:
  "(case QueryResult_handleResponseObject 0
           (JObj [(''locationId'', JStr ''q1''), (''type'', JStr ''noResult'')])
           (new_QueryResult ''q1'' ''2+2'' []) [(JStr ''q1'', 0)] of
      (err, s', p', ev) \<Rightarrow> err = None \<and> failed s' \<and> map (\<lambda>(f, snap). failed snap) ev = [False])"
  by (simp add: QueryResult_handleResponseObject_def Response_handleResponseObject_def
      copy_fields_def dispatch_def new_QueryResult_def Let_def)

section \<open>Re-keying\<close>

lemma handler_didyoumean:
  assumes "is_kind obj ''didyoumean''" "get_prop obj ''didyoumean'' = Inr d"
    "iterate d = Inr xs"
  shows "\<exists>s'. QueryResult_handleResponseObject this obj s p =
       (None, s', map_set (JStr (id' s @ ''_dym'')) this (map_delete (JStr (id' s)) p),
        [(obj, s\<lparr>responseObjects := responseObjects s @ [obj]\<rparr>)]) \<and>
     id' s' = id' s @ ''_dym'' \<and> didYouMean s' = didYouMean s @ xs"
proof -
  let ?s0 = "s\<lparr>responseObjects := responseObjects s @ [obj]\<rparr>"
  from assms(2) copy_fields_defined obtain s1 where s1: "copy_fields obj ?s0 = Inr s1"
    by blast
  from copy_fields_same [OF s1] obtain a b c where
    f: "s1 = ?s0\<lparr>correctedInput := a, server := b, host := c\<rparr>" by blast
  have "dispatch this obj s1 p =
     (None, s1\<lparr>didYouMean := didYouMean s1 @ xs, id' := id' s1 @ ''_dym''\<rparr>,
      map_set (JStr (id' s1 @ ''_dym'')) this (map_delete (JStr (id' s1)) p))"
    using assms by (simp add: dispatch_didyoumean)
  moreover have "id' s1 = id' s" "didYouMean s1 = didYouMean s"
    by (simp_all add: f)
  ultimately have "QueryResult_handleResponseObject this obj s p =
       (None, s1\<lparr>didYouMean := didYouMean s @ xs, id' := id' s @ ''_dym''\<rparr>,
        map_set (JStr (id' s @ ''_dym'')) this (map_delete (JStr (id' s)) p),
        [(obj, ?s0)])"
    using s1
    by (simp add: QueryResult_handleResponseObject_def Response_handleResponseObject_def Let_def)
  then show ?thesis by simp
qed

text \<open>
  C2: a session with identifier \<open>i\<close>, registered under \<open>i\<close>, is handed a fragment of kind
  \<^verbatim>\<open>didyoumean\<close> whose suggestions are \<open>xs\<close>. Afterwards the map leads from
  \<open>i_dym\<close> to the session and has no entry for \<open>i\<close>, the suggestions are appended to
  \<^verbatim>\<open>didYouMean\<close>, and any message tagged with \<open>i\<close> is dropped: the world, with every
  session in it, stays as it is.
\<close>

theorem didyoumean_rekeys_session:
  assumes "map_get (pendingResponses w) (JStr i) = Some r" and "heap w r = Some s"
    and "id' s = i"
    and "get_prop m ''locationId'' = Inr (JStr i)" and "is_kind m ''didyoumean''"
    and "get_prop m ''didyoumean'' = Inr d" and "iterate d = Inr xs"
  shows "\<exists>w' s'. handleMessage m w = (None, w') \<and>
     map_get (pendingResponses w') (JStr (i @ ''_dym'')) = Some r \<and>
     map_get (pendingResponses w') (JStr i) = None \<and>
     heap w' r = Some s' \<and> id' s' = i @ ''_dym'' \<and>
     didYouMean s' = didYouMean s @ xs \<and>
     (\<forall>g. get_prop g ''locationId'' = Inr (JStr i) \<longrightarrow> handleMessage g w' = (None, w'))"
proof -
  from handler_didyoumean [OF assms(5-7), of r s "pendingResponses w"] obtain s' where
    h: "QueryResult_handleResponseObject r m s (pendingResponses w) =
       (None, s', map_set (JStr (id' s @ ''_dym'')) r (map_delete (JStr (id' s)) (pendingResponses w)),
        [(m, s\<lparr>responseObjects := responseObjects s @ [m]\<rparr>)])"
    and s': "id' s' = id' s @ ''_dym''" "didYouMean s' = didYouMean s @ xs" by blast
  let ?w' = "w\<lparr>pendingResponses :=
      map_set (JStr (i @ ''_dym'')) r (map_delete (JStr i) (pendingResponses w)),
      heap := (heap w)(r \<mapsto> s'),
      emitted := emitted w @ [(r, m, s\<lparr>responseObjects := responseObjects s @ [m]\<rparr>)]\<rparr>"
  from assms(1-4) h have hm: "handleMessage m w = (None, ?w')"
    by (simp add: handleMessage_def)
  have new: "map_get (pendingResponses ?w') (JStr (i @ ''_dym'')) = Some r"
    by (simp add: map_get_map_set same_value_zero_def)
  have old: "map_get (pendingResponses ?w') (JStr i) = None"
    by (simp add: map_get_map_set map_get_map_delete same_value_zero_def)
  have drop: "handleMessage g ?w' = (None, ?w')" if "get_prop g ''locationId'' = Inr (JStr i)" for g
    using that old by (simp add: handleMessage_def)
  from hm new old drop s' assms(3) show ?thesis
    by (intro exI [of _ ?w'] exI [of _ s']) simp
qed

text \<open>The first session of \<open>two_outstanding\<close> is re-keyed; a \<^verbatim>\<open>noResult\<close> fragment
  under the old identifier changes nothing.\<close>

theorem didyoumean_rekeys_session_witness:
  "map_get (pendingResponses two_outstanding) (JStr ''q1'') = Some 0 \<and>
   is_kind didyoumean_q1 ''didyoumean'' \<and>
   (\<exists>w' s'. handleMessage didyoumean_q1 two_outstanding = (None, w') \<and>
      map_get (pendingResponses w') (JStr ''q1_dym'') = Some 0 \<and>
      map_get (pendingResponses w') (JStr ''q1'') = None \<and>
      heap w' 0 = Some s' \<and> didYouMean s' = [JObj [(''val'', JStr ''2 + 2'')]] \<and>
      handleMessage (JObj [(''locationId'', JStr ''q1''), (''type'', JStr ''noResult'')]) w'
        = (None, w'))"
proof -
  have a: "map_get (pendingResponses two_outstanding) (JStr ''q1'') = Some 0"
    by (simp add: two_outstanding_state same_value_zero_def)
  have b: "id' (new_QueryResult ''q1'' ''2+2'' []) = ''q1''"
    "didYouMean (new_QueryResult ''q1'' ''2+2'' []) = []"
    by (simp_all add: new_QueryResult_def)
  have c: "get_prop didyoumean_q1 ''locationId'' = Inr (JStr ''q1'')"
    "is_kind didyoumean_q1 ''didyoumean''"
    "get_prop didyoumean_q1 ''didyoumean'' = Inr (JArr [JObj [(''val'', JStr ''2 + 2'')]])"
    "iterate (JArr [JObj [(''val'', JStr ''2 + 2'')]]) = Inr [JObj [(''val'', JStr ''2 + 2'')]]"
    by (simp_all add: didyoumean_q1_def is_kind_def)
  from didyoumean_rekeys_session [OF a two_outstanding_state(2) b(1) c]
  obtain w' s' where
    "handleMessage didyoumean_q1 two_outstanding = (None, w')"
    "map_get (pendingResponses w') (JStr ''q1_dym'') = Some 0"
    "map_get (pendingResponses w') (JStr ''q1'') = None"
    "heap w' 0 = Some s'"
    "didYouMean s' = didYouMean (new_QueryResult ''q1'' ''2+2'' []) @ [JObj [(''val'', JStr ''2 + 2'')]]"
    "\<forall>g. get_prop g ''locationId'' = Inr (JStr ''q1'') \<longrightarrow> handleMessage g w' = (None, w')"
    by auto
  with a b c show ?thesis
    by (intro conjI exI [of _ w'] exI [of _ s']) simp_all
qed

section \<open>Pods\<close>

lemma present_defined: "present obj \<Longrightarrow> \<exists>v. get_prop obj k = Inr v"
  by (cases obj) simp_all

lemma defined_present: "get_prop obj k = Inr v \<Longrightarrow> present obj"
  by (cases obj) simp_all

lemma absent_throws: "\<not> present obj \<Longrightarrow> get_prop obj k = Inl TypeError"
  by (cases obj) simp_all

lemma pods_loop_reached:
  "\<exists>err. pods_loop ps s =
     (err, s\<lparr>erroredPods := erroredPods s @ filter error_flag (takeWhile present ps),
             pods := fold (\<lambda>pod. map_set (position pod) pod)
                       (filter (\<lambda>pod. \<not> error_flag pod) (takeWhile present ps)) (pods s)\<rparr>) \<and>
     (list_all present ps \<longrightarrow> err = None)"
proof (induction ps arbitrary: s)
  case Nil
  show ?case by simp
next
  case (Cons pod rest)
  show ?case
  proof (cases "present pod")
    case False
    from absent_throws [OF False] False show ?thesis by simp
  next
    case True
    from present_defined [OF True] obtain flag pos where
      g: "get_prop pod ''error'' = Inr flag" "get_prop pod ''position'' = Inr pos" by blast
    show ?thesis
    proof (cases "truthy flag")
      case t: True
      from Cons.IH [of "s\<lparr>erroredPods := erroredPods s @ [pod]\<rparr>"] True g t
      show ?thesis by (auto simp: error_flag_def)
    next
      case f: False
      from Cons.IH [of "s\<lparr>pods := map_set pos pod (pods s)\<rparr>"] True g f
      show ?thesis by (auto simp: error_flag_def position_def)
    qed
  qed
qed

lemma pods_loop_ok:
  assumes "list_all present ps"
  shows "\<exists>s'. pods_loop ps s = (None, s')"
  using pods_loop_reached [of ps s] assms by auto

lemma map_get_fold_set:
  "map_get (fold (\<lambda>pod. map_set (position pod) pod) qs m) k =
     (case filter (\<lambda>pod. same_value_zero (position pod) k) (rev qs) of
        [] \<Rightarrow> map_get m k
      | pod # _ \<Rightarrow> Some pod)"
  by (induction qs arbitrary: m) (simp_all add: map_get_map_set split: list.splits)

lemma unique_keys_map_set: "unique_keys m \<Longrightarrow> unique_keys (map_set a v m)"
  by (induction m) (auto simp: map_get_map_set same_value_zero_def)

lemma unique_keys_fold_set:
  "unique_keys m \<Longrightarrow> unique_keys (fold (\<lambda>pod. map_set (position pod) pod) qs m)"
  by (induction qs arbitrary: m) (simp_all add: unique_keys_map_set)

lemma entry_map_set: "(k, x) \<in> set (map_set a v m) \<Longrightarrow> x = v \<or> (k, x) \<in> set m"
  by (induction m) (auto split: if_splits)

lemma values_map_set: "snd ` set (map_set a v m) \<subseteq> insert v (snd ` set m)"
  using entry_map_set [of _ _ a v m] by force

lemma values_fold_set:
  "snd ` set (fold (\<lambda>pod. map_set (position pod) pod) qs m) \<subseteq> set qs \<union> snd ` set m"
proof (induction qs arbitrary: m)
  case Nil
  show ?case by simp
next
  case (Cons q qs)
  from Cons.IH [of "map_set (position q) q m"] values_map_set [of "position q" q m]
  show ?case by auto
qed

lemma handler_pods:
  assumes "is_kind f ''pods''"
  shows "\<exists>err s'. QueryResult_handleResponseObject this f s p =
       (err, s', p, [(f, s\<lparr>responseObjects := responseObjects s @ [f]\<rparr>)]) \<and>
     erroredPods s' = erroredPods s @ filter error_flag (reached_pods f) \<and>
     pods s' = fold (\<lambda>pod. map_set (position pod) pod)
                 (filter (\<lambda>pod. \<not> error_flag pod) (reached_pods f)) (pods s)"
proof -
  let ?s0 = "s\<lparr>responseObjects := responseObjects s @ [f]\<rparr>"
  from is_kind_defined [OF assms] obtain ps where ps: "get_prop f ''pods'' = Inr ps" by blast
  from ps copy_fields_defined obtain s1 where s1: "copy_fields f ?s0 = Inr s1" by blast
  from copy_fields_same [OF s1] obtain a b c where
    e: "s1 = ?s0\<lparr>correctedInput := a, server := b, host := c\<rparr>" by blast
  have same: "erroredPods s1 = erroredPods s" "pods s1 = pods s" by (simp_all add: e)
  have "\<exists>err s'. dispatch this f s1 p = (err, s', p) \<and>
     erroredPods s' = erroredPods s @ filter error_flag (reached_pods f) \<and>
     pods s' = fold (\<lambda>pod. map_set (position pod) pod)
                 (filter (\<lambda>pod. \<not> error_flag pod) (reached_pods f)) (pods s)"
  proof (cases "iterate ps")
    case (Inl x)
    with assms ps same show ?thesis
      by (simp add: dispatch_pods reached_pods_def carried_pods_def)
  next
    case (Inr xs)
    from pods_loop_reached [of xs s1] obtain err where
      "pods_loop xs s1 =
        (err, s1\<lparr>erroredPods := erroredPods s1 @ filter error_flag (takeWhile present xs),
             pods := fold (\<lambda>pod. map_set (position pod) pod)
                       (filter (\<lambda>pod. \<not> error_flag pod) (takeWhile present xs)) (pods s1)\<rparr>)"
      by blast
    with assms ps Inr same show ?thesis
      by (simp add: dispatch_pods reached_pods_def carried_pods_def)
  qed
  then obtain err s' where d: "dispatch this f s1 p = (err, s', p)"
    and r: "erroredPods s' = erroredPods s @ filter error_flag (reached_pods f)"
      "pods s' = fold (\<lambda>pod. map_set (position pod) pod)
                 (filter (\<lambda>pod. \<not> error_flag pod) (reached_pods f)) (pods s)" by blast
  from s1 d have "QueryResult_handleResponseObject this f s p = (err, s', p, [(f, ?s0)])"
    by (simp add: QueryResult_handleResponseObject_def Response_handleResponseObject_def Let_def)
  with r show ?thesis by blast
qed

lemma apply_pods_fragments:
  "\<forall>f\<in>set fs. is_kind f ''pods'' \<Longrightarrow>
   erroredPods (fst (apply_fragments this fs (s, p))) =
     erroredPods s @ filter error_flag (concat (map reached_pods fs)) \<and>
   pods (fst (apply_fragments this fs (s, p))) =
     fold (\<lambda>pod. map_set (position pod) pod)
       (filter (\<lambda>pod. \<not> error_flag pod) (concat (map reached_pods fs))) (pods s)"
proof (induction fs arbitrary: s p)
  case Nil
  show ?case by simp
next
  case (Cons f fs)
  from Cons.prems have f: "is_kind f ''pods''" and fs: "\<forall>f\<in>set fs. is_kind f ''pods''"
    by simp_all
  from handler_pods [OF f, of this s p] obtain err s' where
    h: "QueryResult_handleResponseObject this f s p =
       (err, s', p, [(f, s\<lparr>responseObjects := responseObjects s @ [f]\<rparr>)])"
    and e: "erroredPods s' = erroredPods s @ filter error_flag (reached_pods f)"
    and m: "pods s' = fold (\<lambda>pod. map_set (position pod) pod)
                 (filter (\<lambda>pod. \<not> error_flag pod) (reached_pods f)) (pods s)" by blast
  from Cons.IH [OF fs, of s' p] h e m show ?case by simp
qed

text \<open>
  C3: a session is handed a sequence of fragments of kind \<^verbatim>\<open>pods\<close>. Of the pods the
  handler reaches (all of them, unless a pod is \<^verbatim>\<open>null\<close>), every pod with an error flag
  is appended to \<^verbatim>\<open>erroredPods\<close>, in the order of arrival, and the others are not. The
  map \<^verbatim>\<open>pods\<close> holds, under every key, the last pod without an error flag whose position
  is that key (the entry it had before when there is none): the last write wins. Every
  record of the map was there before or is a pod without an error flag, so a pod with an
  error flag never enters the map. A map without two entries for one key stays so.
\<close>

theorem pods_last_write_wins_errors_apart:
  assumes "\<forall>f\<in>set fs. is_kind f ''pods''"
  shows "erroredPods (fst (apply_fragments this fs (s, p))) =
       erroredPods s @ filter error_flag (concat (map reached_pods fs)) \<and>
     (\<forall>k. map_get (pods (fst (apply_fragments this fs (s, p)))) k =
        (case filter (\<lambda>pod. \<not> error_flag pod \<and> same_value_zero (position pod) k)
                (rev (concat (map reached_pods fs))) of
           [] \<Rightarrow> map_get (pods s) k
         | pod # _ \<Rightarrow> Some pod)) \<and>
     (\<forall>v\<in>snd ` set (pods (fst (apply_fragments this fs (s, p)))).
        v \<in> snd ` set (pods s) \<or>
        (v \<in> set (concat (map reached_pods fs)) \<and> \<not> error_flag v)) \<and>
     (unique_keys (pods s) \<longrightarrow> unique_keys (pods (fst (apply_fragments this fs (s, p))))) \<and>
     (\<forall>f\<in>set fs. list_all present (carried_pods f) \<longrightarrow> reached_pods f = carried_pods f)"
proof -
  let ?all = "concat (map reached_pods fs)"
  let ?s' = "fst (apply_fragments this fs (s, p))"
  note a = apply_pods_fragments [OF assms, of this s p]
  have e: "erroredPods ?s' = erroredPods s @ filter error_flag ?all" using a by simp
  have m: "pods ?s' = fold (\<lambda>pod. map_set (position pod) pod)
       (filter (\<lambda>pod. \<not> error_flag pod) ?all) (pods s)" using a by simp
  have g: "map_get (pods ?s') k =
        (case filter (\<lambda>pod. \<not> error_flag pod \<and> same_value_zero (position pod) k) (rev ?all) of
           [] \<Rightarrow> map_get (pods s) k
         | pod # _ \<Rightarrow> Some pod)" for k
    unfolding m map_get_fold_set by (simp add: rev_filter [symmetric] conj_commute)
  have v: "v \<in> snd ` set (pods s) \<or> (v \<in> set ?all \<and> \<not> error_flag v)"
    if "v \<in> snd ` set (pods ?s')" for v
    using that values_fold_set [of "filter (\<lambda>pod. \<not> error_flag pod) ?all" "pods s"]
    unfolding m by auto
  have u: "unique_keys (pods s) \<Longrightarrow> unique_keys (pods ?s')"
    unfolding m by (rule unique_keys_fold_set)
  have r: "list_all present (carried_pods f) \<Longrightarrow> reached_pods f = carried_pods f" for f
    by (simp add: reached_pods_def list_all_iff)
  from e g v u r show ?thesis by blast
qed

text \<open>The two fragments of \<open>two_pods_fragments\<close> on a fresh session.\<close>

theorem pods_last_write_wins_errors_apart_witness:
  "list_all (\<lambda>f. is_kind f ''pods'') two_pods_fragments \<and>
   erroredPods (fst (apply_fragments 0 two_pods_fragments
       (new_QueryResult ''q1'' ''2+2'' [], [(JStr ''q1'', 0)]))) =
     [JObj [(''position'', JNum 200), (''error'', JBool True)]] \<and>
   map_get (pods (fst (apply_fragments 0 two_pods_fragments
       (new_QueryResult ''q1'' ''2+2'' [], [(JStr ''q1'', 0)])))) (JNum 100) =
     Some (JObj [(''position'', JNum 100), (''title'', JStr ''Result'')]) \<and>
   map_get (pods (fst (apply_fragments 0 two_pods_fragments
       (new_QueryResult ''q1'' ''2+2'' [], [(JStr ''q1'', 0)])))) (JNum 200) = None"
proof -
  have h: "\<forall>f\<in>set two_pods_fragments. is_kind f ''pods''"
    by (simp add: two_pods_fragments_def is_kind_def)
  have c: "concat (map reached_pods two_pods_fragments) =
     [JObj [(''position'', JNum 100), (''title'', JStr ''Input'')],
      JObj [(''position'', JNum 200), (''error'', JBool True)],
      JObj [(''position'', JNum 100), (''title'', JStr ''Result'')]]"
    by (simp add: two_pods_fragments_def carried_pods_def reached_pods_def)
  from pods_last_write_wins_errors_apart
    [OF h, of 0 "new_QueryResult ''q1'' ''2+2'' []" "[(JStr ''q1'', 0)]"]
  show ?thesis using h
    by (simp add: c error_flag_def position_def same_value_zero_def new_QueryResult_def
        list_all_iff)
qed

section \<open>Properties of the template expansion\<close>

text \<open>
  C10: when the values are an array and the cursor \<^verbatim>\<open>descIndex\<close> is past its end, a
  \<^verbatim>\<open>${desc}\<close> placeholder appends nothing to the output and raises no error; the cursor
  moves on by one, and the loop goes on with the remaining chunks and placeholders as if
  the placeholder had been absent (only the literal chunk before it is appended).
\<close>

theorem desc_past_end_contributes_nothing:
  assumes "length vs \<le> descIndex"
  shows "expand_key entry (JArr vs) ''${desc}'' (descIndex, str) = Inr (Suc descIndex, str) \<and>
     expand_keys entry (JArr vs) chunks (''${desc}'' # keys) i (descIndex, str) =
       expand_keys entry (JArr vs) chunks keys (Suc i) (Suc descIndex, str @ chunk_at chunks i)"
proof -
  have k: "expand_key entry (JArr vs) ''${desc}'' (descIndex, x) = Inr (Suc descIndex, x)" for x
    using assms by (simp add: expand_key_def)
  show ?thesis by (simp add: k)
qed

text \<open>One value, three \<^verbatim>\<open>${desc}\<close> placeholders: the second and the third find the
  cursor past the end.\<close>

theorem desc_past_end_contributes_nothing_witness:
  "length [JObj [(''desc'', JStr ''a city'')]] \<le> 1 \<and>
   expand_key one_value_three_descs (JArr [JObj [(''desc'', JStr ''a city'')]])
     ''${desc}'' (1, ''a city, '') = Inr (Suc 1, ''a city, '') \<and>
   expand one_value_three_descs = Inr ''a city,  or ?''"
proof -
  have e: "expand one_value_three_descs = Inr ''a city,  or ?''"
    unfolding one_value_three_descs_def by code_simp
  have l: "length [JObj [(''desc'', JStr ''a city'')]] \<le> 1" by simp
  from desc_past_end_contributes_nothing [OF l, of one_value_three_descs "''a city, ''"]
  have "expand_key one_value_three_descs (JArr [JObj [(''desc'', JStr ''a city'')]])
     ''${desc}'' (1, ''a city, '') = Inr (Suc 1, ''a city, '')"
    by (rule conjunct1)
  with l e show ?thesis by blast
qed

lemma string_or_absent_cases:
  "string_or_absent v \<Longrightarrow> v = JUndefined \<or> (\<exists>s. v = JStr s)"
  by (cases v) simp_all

text \<open>
  C6, as the code has it, for every assumption entry, whatever other fields it has, whose
  word and query are strings (the word may be absent) and whose first value has a string
  description and a word that is a string or absent: the \<^verbatim>\<open>${word}\<close> placeholder appends
  the result of the priority chain. If the word of the assumption is \<^verbatim>\<open>AssumingWord\<close>,
  that is the description of the first value; else if the assumption has a non-empty
  word, that word; else if the first value has a non-empty word, that word, unless it is
  exactly \<^verbatim>\<open>" the input "\<close> (with a leading and a trailing space), in which case it is
  the query text, read from the field \<^verbatim>\<open>query\<close> of the entry; else that query text.
\<close>

theorem word_placeholder_priority_chain:
  assumes "get_prop entry ''word'' = Inr w" and "string_or_absent w"
    and "get_prop entry ''values'' = Inr vs" and "get_index vs 0 = Inr v0"
    and "get_prop v0 ''desc'' = Inr (JStr d)"
    and "get_prop v0 ''word'' = Inr w0" and "string_or_absent w0"
    and "get_prop entry ''query'' = Inr (JStr q)"
  shows "expand_key entry vals ''${word}'' (descIndex, str) =
       Inr (descIndex, str @ word_chain (string_of w) q d (string_of w0)) \<and>
     word_chain (Some ''AssumingWord'') q d (string_of w0) = d \<and>
     (\<forall>x. x \<noteq> [] \<and> x \<noteq> ''AssumingWord'' \<longrightarrow> word_chain (Some x) q d (string_of w0) = x) \<and>
     (\<forall>x. x \<noteq> [] \<and> x \<noteq> '' the input '' \<longrightarrow>
        word_chain None q d (Some x) = x \<and> word_chain (Some []) q d (Some x) = x) \<and>
     word_chain None q d (Some '' the input '') = q \<and>
     word_chain (Some []) q d (Some '' the input '') = q \<and>
     word_chain None q d None = q \<and> word_chain (Some []) q d None = q \<and>
     word_chain None q d (Some []) = q \<and> word_chain (Some []) q d (Some []) = q"
proof -
  have v: "word_value entry = Inr (JStr (word_chain (string_of w) q d (string_of w0)))"
    using assms(1,3,4,5,6,8) string_or_absent_cases [OF assms(2)]
      string_or_absent_cases [OF assms(7)]
    by (auto simp: word_value_def word_chain_def first_value_word_def)
  have "expand_key entry vals ''${word}'' (descIndex, str) =
       Inr (descIndex, str @ word_chain (string_of w) q d (string_of w0))"
    by (simp add: expand_key_def v)
  then show ?thesis by (simp add: word_chain_def first_value_word_def)
qed

text \<open>The entry \<open>clash_entry\<close>, which has fields the expansion does not read: the word
  of its first value is \<^verbatim>\<open>" the input "\<close>, so the placeholder resolves to its query.\<close>

theorem word_placeholder_priority_chain_witness:
  "get_prop clash_entry ''word'' = Inr JUndefined \<and>
   get_prop clash_entry ''query'' = Inr (JStr ''pi'') \<and>
   expand_key clash_entry JUndefined ''${word}'' (0, ''Assuming '') = Inr (0, ''Assuming pi'') \<and>
   expand clash_entry = Inr ''Assuming pi is a mathematical constant''"
proof -
  have e: "expand clash_entry = Inr ''Assuming pi is a mathematical constant''"
    unfolding clash_entry_def by code_simp
  have f: "get_prop clash_entry ''word'' = Inr JUndefined"
    "get_prop clash_entry ''values'' =
       Inr (JArr [JObj [(''name'', JStr ''NamedConstant''),
                        (''desc'', JStr ''a mathematical constant''),
                        (''word'', JStr '' the input ''),
                        (''input'', JStr ''*C.pi-_*NamedConstant-'')]])"
    "get_prop clash_entry ''query'' = Inr (JStr ''pi'')"
    by (simp_all add: clash_entry_def)
  have g: "get_index (JArr [JObj [(''name'', JStr ''NamedConstant''),
                        (''desc'', JStr ''a mathematical constant''),
                        (''word'', JStr '' the input ''),
                        (''input'', JStr ''*C.pi-_*NamedConstant-'')]]) 0 =
       Inr (JObj [(''name'', JStr ''NamedConstant''),
                        (''desc'', JStr ''a mathematical constant''),
                        (''word'', JStr '' the input ''),
                        (''input'', JStr ''*C.pi-_*NamedConstant-'')])"
    "get_prop (JObj [(''name'', JStr ''NamedConstant''),
                        (''desc'', JStr ''a mathematical constant''),
                        (''word'', JStr '' the input ''),
                        (''input'', JStr ''*C.pi-_*NamedConstant-'')]) ''desc'' =
       Inr (JStr ''a mathematical constant'')"
    "get_prop (JObj [(''name'', JStr ''NamedConstant''),
                        (''desc'', JStr ''a mathematical constant''),
                        (''word'', JStr '' the input ''),
                        (''input'', JStr ''*C.pi-_*NamedConstant-'')]) ''word'' =
       Inr (JStr '' the input '')"
    by simp_all
  have s: "string_or_absent JUndefined" "string_or_absent (JStr '' the input '')"
    by simp_all
  from word_placeholder_priority_chain
    [OF f(1) s(1) f(2) g(1) g(2) g(3) s(2) f(3), of JUndefined 0 "''Assuming ''"]
  have "expand_key clash_entry JUndefined ''${word}'' (0, ''Assuming '') =
     Inr (0, ''Assuming '' @ word_chain (string_of JUndefined) ''pi''
       ''a mathematical constant'' (string_of (JStr '' the input '')))"
    by (rule conjunct1)
  then have "expand_key clash_entry JUndefined ''${word}'' (0, ''Assuming '') =
     Inr (0, ''Assuming pi'')"
    by (simp add: word_chain_def first_value_word_def)
  with e f show ?thesis by simp
qed

text \<open>C6 as stated fails. A first value whose word is the phrase \<^verbatim>\<open>"the input"\<close>
  without the surrounding spaces is not replaced by the query text. And the query text
  that is substituted is the field \<^verbatim>\<open>query\<close> of the entry, not the input the session was
  created with: \<open>clash_fragment\<close> on a session for the input \<^verbatim>\<open>2+2\<close> yields the string
  built from \<^verbatim>\<open>pi\<close>.\<close>

theorem word_placeholder_the_input_counterexample:
  "expand (JObj [(''template'', JStr ''${word}''), (''query'', JStr ''2+2''),
                 (''values'', JArr [JObj [(''desc'', JStr ''x''), (''word'', JStr ''the input'')]])])
     = Inr ''the input'' \<and>
   originalInput (new_QueryResult ''q1'' ''2+2'' []) = ''2+2'' \<and>
   map (\<lambda>a. get_prop a ''string'')
     (assumptions (fst (snd (QueryResult_handleResponseObject 0 clash_fragment
        (new_QueryResult ''q1'' ''2+2'' []) [(JStr ''q1'', 0)])))) =
     [Inr (JStr ''Assuming pi is a mathematical constant'')]"
  unfolding clash_fragment_def clash_entry_def by code_simp

section \<open>Fragments that raise no error\<close>

lemma to_string_ok: "string_or_absent v \<Longrightarrow> \<exists>s. to_string v = Inr s"
  by (cases v) simp_all

lemma field_okD: "field_ok P v k \<Longrightarrow> \<exists>x. get_prop v k = Inr x \<and> P x"
  by (auto simp: field_ok_def split: sum.splits)

lemma wf_value_fields:
  assumes "wf_value v"
  shows "truthy v" and "\<exists>x. get_prop v ''desc'' = Inr x \<and> string_or_absent x"
    and "\<exists>x. get_prop v ''word'' = Inr x \<and> string_or_absent x"
  using assms by (cases v; auto dest: field_okD)+

lemma wf_assumption_fields:
  assumes "wf_assumption e"
  shows "\<exists>t. get_prop e ''template'' = Inr (JStr t) \<and> match_template t \<noteq> None"
    and "\<exists>vs. get_prop e ''values'' = Inr (JArr vs) \<and> vs \<noteq> [] \<and> list_all wf_value vs"
    and "\<exists>x. get_prop e ''word'' = Inr x \<and> string_or_absent x"
    and "\<exists>x. get_prop e ''query'' = Inr x \<and> string_or_absent x"
    and "\<exists>kvs. e = JObj kvs"
proof -
  from assms obtain kvs where e: "e = JObj kvs" by (cases e) simp_all
  from assms e obtain tv where tv: "get_prop e ''template'' = Inr tv" "wf_template tv"
    by (auto dest: field_okD)
  then show "\<exists>t. get_prop e ''template'' = Inr (JStr t) \<and> match_template t \<noteq> None"
    by (cases tv) simp_all
  from assms e obtain vv where vv: "get_prop e ''values'' = Inr vv" "wf_values vv"
    by (auto dest: field_okD)
  then show "\<exists>vs. get_prop e ''values'' = Inr (JArr vs) \<and> vs \<noteq> [] \<and> list_all wf_value vs"
    by (cases vv) simp_all
  from assms e show "\<exists>x. get_prop e ''word'' = Inr x \<and> string_or_absent x"
    by (auto dest: field_okD)
  from assms e show "\<exists>x. get_prop e ''query'' = Inr x \<and> string_or_absent x"
    by (auto dest: field_okD)
  from e show "\<exists>kvs. e = JObj kvs" by blast
qed

lemma word_value_ok:
  assumes "wf_assumption e"
  shows "\<exists>v. word_value e = Inr v \<and> string_or_absent v"
proof -
  from wf_assumption_fields [OF assms] obtain vs w q where
    vs: "get_prop e ''values'' = Inr (JArr vs)" "vs \<noteq> []" "list_all wf_value vs"
    and w: "get_prop e ''word'' = Inr w" "string_or_absent w"
    and q: "get_prop e ''query'' = Inr q" "string_or_absent q" by blast
  from vs obtain v0 rest where v0: "vs = v0 # rest" "wf_value v0" by (cases vs) auto
  from wf_value_fields [OF v0(2)] obtain d w0 where
    d: "get_prop v0 ''desc'' = Inr d" "string_or_absent d"
    and w0: "get_prop v0 ''word'' = Inr w0" "string_or_absent w0" by blast
  show ?thesis
    by (simp add: word_value_def vs v0 w q d w0)
qed

lemma expand_key_ok:
  assumes "wf_assumption e" "list_all wf_value vs"
  shows "\<exists>st'. expand_key e (JArr vs) key st = Inr st'"
proof -
  obtain di str where st: "st = (di, str)" by (cases st)
  from word_value_ok [OF assms(1)] obtain v where
    v: "word_value e = Inr v" "string_or_absent v" by blast
  from to_string_ok [OF v(2)] obtain ws where ws: "to_string v = Inr ws" by blast
  have desc: "\<exists>st'. (case get_index (JArr vs) di of
             Inl e \<Rightarrow> Inl e
           | Inr val \<Rightarrow>
               if truthy val then
                 (case get_prop val ''desc'' of
                    Inl e \<Rightarrow> Inl e
                  | Inr d \<Rightarrow>
                      (case to_string d of
                         Inl e \<Rightarrow> Inl e
                       | Inr ds \<Rightarrow> Inr (Suc di, str @ ds)))
               else Inr (Suc di, str)) = Inr st'"
  proof (cases "di < length vs")
    case True
    with assms(2) have "wf_value (vs ! di)" by (simp add: list_all_length)
    from wf_value_fields [OF this] obtain d where
      d: "truthy (vs ! di)" "get_prop (vs ! di) ''desc'' = Inr d" "string_or_absent d" by blast
    from to_string_ok [OF d(3)] obtain ds where "to_string d = Inr ds" by blast
    with True d show ?thesis by simp
  next
    case False
    then show ?thesis by simp
  qed
  show ?thesis
    unfolding expand_key_def st using desc v ws by simp
qed

lemma expand_keys_ok:
  assumes "wf_assumption e" "list_all wf_value vs"
  shows "\<exists>st'. expand_keys e (JArr vs) chunks keys i st = Inr st'"
proof (induction keys arbitrary: i st)
  case Nil
  show ?case by simp
next
  case (Cons key keys)
  from expand_key_ok [OF assms, of key "(fst st, snd st @ chunk_at chunks i)"] obtain st1 where
    "expand_key e (JArr vs) key (fst st, snd st @ chunk_at chunks i) = Inr st1" by blast
  with Cons.IH [of "Suc i" st1] show ?case by simp
qed

lemma expand_ok:
  assumes "wf_assumption e"
  shows "\<exists>str. expand e = Inr str"
proof -
  from wf_assumption_fields [OF assms] obtain t vs keys where
    t: "get_prop e ''template'' = Inr (JStr t)" "match_template t = Some keys"
    and vs: "get_prop e ''values'' = Inr (JArr vs)" "vs \<noteq> []" "list_all wf_value vs"
    by blast
  from vs obtain v0 rest where v0: "vs = v0 # rest" "wf_value v0" by (cases vs) auto
  from wf_value_fields [OF v0(2)] obtain d where
    d: "truthy v0" "get_prop v0 ''desc'' = Inr d" "string_or_absent d" by blast
  from to_string_ok [OF d(3)] obtain ds where ds: "to_string d = Inr ds" by blast
  have s: "desc_start t (JArr vs) = Inr (if str_includes t ds then 1 else 0)"
    by (simp add: desc_start_def v0 d ds)
  from expand_keys_ok [OF assms vs(3)] obtain st' where
    "expand_keys e (JArr vs) (split_template t) keys 0
       (if str_includes t ds then 1 else 0, []) = Inr st'" by blast
  with t vs s show ?thesis by (simp add: expand_def)
qed

lemma assumptions_loop_ok:
  "list_all wf_assumption es \<Longrightarrow> \<exists>es' s'. assumptions_loop es s = (None, es', s')"
proof (induction es arbitrary: s)
  case Nil
  show ?case by simp
next
  case (Cons a rest)
  from Cons.prems have a: "wf_assumption a" and r: "list_all wf_assumption rest" by simp_all
  from expand_ok [OF a] obtain str where str: "expand a = Inr str" by blast
  from wf_assumption_fields(5) [OF a] obtain kvs where kvs: "a = JObj kvs" by blast
  from Cons.IH [OF r, of "s\<lparr>assumptions := assumptions s @ [JObj (set_entry ''string'' (JStr str) kvs)]\<rparr>"]
  show ?case using str kvs by auto
qed

lemma iterable_iterate: "iterable d \<Longrightarrow> \<exists>xs. iterate d = Inr xs"
  by (cases d) simp_all

lemma well_shaped_present: "well_shaped obj \<Longrightarrow> present obj"
  by (auto simp: well_shaped_def is_kind_def pods_fragment_def field_ok_def
      split: if_splits sum.splits dest: defined_present)

lemma dispatch_ok:
  assumes "well_shaped obj"
  shows "\<exists>s' p'. dispatch this obj s p = (None, s', p')"
proof (cases obj rule: kind_cases)
  case (throws e)
  from present_defined [OF well_shaped_present [OF assms], of "''type''"] throws
  show ?thesis by simp
next
  case queryComplete
  from is_kind_defined [OF queryComplete, of "''timedOut''"] queryComplete
  show ?thesis by (auto simp: dispatch_queryComplete)
next
  case didyoumean
  with assms have "field_ok iterable obj ''didyoumean''" by (simp add: well_shaped_def)
  then obtain d where d: "get_prop obj ''didyoumean'' = Inr d" "iterable d"
    by (auto dest: field_okD)
  from iterable_iterate [OF d(2)] obtain xs where "iterate d = Inr xs" by blast
  with d didyoumean show ?thesis by (simp add: dispatch_didyoumean)
next
  case assumptions
  with assms have "field_ok wf_assumptions obj ''assumptions''"
    by (simp add: well_shaped_def is_kind_unique)
  then obtain a where a: "get_prop obj ''assumptions'' = Inr a" "wf_assumptions a"
    by (auto dest: field_okD)
  then obtain es where es: "a = JArr es" "list_all wf_assumption es" by (cases a) simp_all
  from assumptions_loop_ok [OF es(2), of s] obtain es' s' where
    "assumptions_loop es s = (None, es', s')" by blast
  with a es assumptions show ?thesis by (simp add: dispatch_assumptions)
next
  case pods
  with assms have "pods_fragment obj" by (simp add: well_shaped_def is_kind_unique)
  then obtain ps xs where ps: "get_prop obj ''pods'' = Inr ps" and xs: "iterate ps = Inr xs"
    and ok: "list_all present xs"
    by (auto simp: pods_fragment_def split: sum.splits)
  from pods_loop_ok [OF ok, of s] obtain s' where "pods_loop xs s = (None, s')" by blast
  with pods ps xs show ?thesis by (simp add: dispatch_pods)
next
  case stepByStep
  with assms have "field_ok present obj ''pod''" by (simp add: well_shaped_def is_kind_unique)
  then obtain pod where pod: "get_prop obj ''pod'' = Inr pod" "present pod"
    by (auto dest: field_okD)
  from present_defined [OF pod(2), of "''position''"] obtain pos where
    "get_prop pod ''position'' = Inr pos" by blast
  with pod stepByStep show ?thesis by (simp add: dispatch_stepByStep)
next
  case warnings
  from is_kind_defined [OF warnings, of "''warnings''"] obtain ws where
    "get_prop obj ''warnings'' = Inr ws" by blast
  with warnings show ?thesis by (cases ws) (simp_all add: dispatch_warnings)
next
  case noResult
  then show ?thesis by (simp add: dispatch_noResult)
next
  case futureTopic
  from is_kind_defined [OF futureTopic, of "''futureTopic''"] futureTopic
  show ?thesis by (auto simp: dispatch_futureTopic)
next
  case (ignored ty)
  then show ?thesis by (simp add: dispatch_ignored)
qed

lemma dispatch_failed:
  assumes "dispatch this obj s p = (err, s', p')"
  shows "failed s' = (failed s \<or> is_kind obj ''noResult'')"
proof -
  have a: "\<And>es x y z. assumptions_loop es s = (x, y, z) \<Longrightarrow> failed z = failed s"
    by (drule assumptions_loop_same) auto
  have b: "\<And>ps x z. pods_loop ps s = (x, z) \<Longrightarrow> failed z = failed s"
    by (drule pods_loop_same) auto
  show ?thesis
  proof (cases obj rule: kind_cases)
    case (throws e)
    with assms show ?thesis by (simp add: dispatch_throws is_kind_def)
  next
    case queryComplete
    with assms show ?thesis
      by (auto simp: dispatch_queryComplete is_kind_unique split: sum.splits)
  next
    case didyoumean
    with assms show ?thesis
      by (auto simp: dispatch_didyoumean is_kind_unique split: sum.splits)
  next
    case assumptions
    with assms show ?thesis
      by (auto simp: dispatch_assumptions is_kind_unique split: sum.splits prod.splits dest: a)
  next
    case pods
    with assms show ?thesis
      by (auto simp: dispatch_pods is_kind_unique split: sum.splits prod.splits dest: b)
  next
    case stepByStep
    with assms show ?thesis
      by (auto simp: dispatch_stepByStep is_kind_unique split: sum.splits)
  next
    case warnings
    with assms show ?thesis
      by (auto simp: dispatch_warnings is_kind_unique split: sum.splits jsval.splits)
  next
    case noResult
    with assms show ?thesis by (auto simp: dispatch_noResult)
  next
    case futureTopic
    with assms show ?thesis
      by (auto simp: dispatch_futureTopic is_kind_unique split: sum.splits)
  next
    case (ignored ty)
    with assms show ?thesis by (simp add: dispatch_ignored)
  qed
qed

text \<open>
  C7, as the code has it: the handler raises no error on a fragment whose payload has
  the shape its kind needs (\<open>well_shaped\<close>): any value other than \<^verbatim>\<open>null\<close> for the kinds
  that read no payload or only store it, an iterable payload for \<^verbatim>\<open>didyoumean\<close>, pods
  other than \<^verbatim>\<open>null\<close> for \<^verbatim>\<open>pods\<close>, a pod for \<^verbatim>\<open>stepByStep\<close>, and for \<^verbatim>\<open>assumptions\<close>
  an array of entries with a string template holding at least one placeholder, a
  non-empty array of values and string fields. The handler never rejects the completion
  future (it leaves it alone or resolves it), and \<^verbatim>\<open>failed\<close> is set by a \<^verbatim>\<open>noResult\<close>
  fragment and by nothing else.
\<close>

theorem well_shaped_fragment_raises_no_error:
  assumes "well_shaped obj"
  shows "\<exists>s' p'. QueryResult_handleResponseObject this obj s p =
       (None, s', p', [(obj, s\<lparr>responseObjects := responseObjects s @ [obj]\<rparr>)]) \<and>
     deferred s' = (if is_kind obj ''queryComplete'' then resolve (deferred s) else deferred s) \<and>
     failed s' = (failed s \<or> is_kind obj ''noResult'')"
proof -
  let ?s0 = "s\<lparr>responseObjects := responseObjects s @ [obj]\<rparr>"
  from present_defined [OF well_shaped_present [OF assms]] copy_fields_defined
  obtain s1 where s1: "copy_fields obj ?s0 = Inr s1" by blast
  from copy_fields_same [OF s1] have f: "failed s1 = failed s" by auto
  from dispatch_ok [OF assms, of this s1 p] obtain s' p' where
    d: "dispatch this obj s1 p = (None, s', p')" by blast
  from s1 d have h: "QueryResult_handleResponseObject this obj s p = (None, s', p', [(obj, ?s0)])"
    by (simp add: QueryResult_handleResponseObject_def Response_handleResponseObject_def Let_def)
  from handler_deferred [OF h] dispatch_failed [OF d] f h show ?thesis by simp
qed

text \<open>The fragment \<open>example_assumptions\<close> on a fresh session.\<close>

theorem well_shaped_fragment_raises_no_error_witness:
  "well_shaped example_assumptions \<and>
   (\<exists>s' p'. QueryResult_handleResponseObject 0 example_assumptions
        (new_QueryResult ''q1'' ''x'' []) [(JStr ''q1'', 0)] =
      (None, s', p',
       [(example_assumptions,
         (new_QueryResult ''q1'' ''x'' [])\<lparr>responseObjects := [example_assumptions]\<rparr>)]) \<and>
      deferred s' = Pending \<and> \<not> failed s')"
proof -
  have w: "well_shaped example_assumptions"
    unfolding example_assumptions_def assumption_entry_def by code_simp
  have k: "\<not> is_kind example_assumptions ''queryComplete''"
    "\<not> is_kind example_assumptions ''noResult''"
    by (simp_all add: example_assumptions_def is_kind_def)
  from well_shaped_fragment_raises_no_error
    [OF w, of 0 "new_QueryResult ''q1'' ''x'' []" "[(JStr ''q1'', 0)]"]
  show ?thesis using w k by (simp add: new_QueryResult_def)
qed

text \<open>C7 as stated fails: a \<^verbatim>\<open>stepByStep\<close> fragment without a pod makes the handler
  throw a \<^verbatim>\<open>TypeError\<close>, and so does an \<^verbatim>\<open>assumptions\<close> fragment whose template holds
  no placeholder.\<close>

theorem malformed_fragment_raises_counterexample:
  "fst (QueryResult_handleResponseObject 0
          (JObj [(''locationId'', JStr ''q1''), (''type'', JStr ''stepByStep'')])
          (new_QueryResult ''q1'' ''x'' []) [(JStr ''q1'', 0)]) = Some TypeError \<and>
   fst (QueryResult_handleResponseObject 0
          (JObj [(''locationId'', JStr ''q1''), (''type'', JStr ''assumptions''),
                 (''assumptions'',
                  JArr [JObj [(''template'', JStr ''Assuming the input''),
                              (''values'', JArr [JObj [(''desc'', JStr ''x'')]])]])])
          (new_QueryResult ''q1'' ''x'' []) [(JStr ''q1'', 0)]) = Some TypeError"
  by code_simp

end
